theory Spec2Isabelle
  imports Complex_Main
begin

section \<open>JavaScript values\<close>

text \<open>
  A JavaScript variable that holds an object may also hold \<open>undefined\<close> or \<open>null\<close>; the
  two are different under \<open>===\<close> and both are falsy. Views are identified by
  \<open>SC.guidFor(view)\<close>, touch objects (\<open>SC.Touch\<close>) by their address in the heap of the model.
\<close>

datatype 'a ref = Undefined | Null | Obj 'a

type_synonym guid = nat
type_synonym addr = nat

fun truthy :: "'a ref \<Rightarrow> bool" where
  "truthy (Obj _) = True"
| "truthy _ = False"

text \<open>
  Numbers are idealised as reals, with \<open>undefined\<close> and \<open>NaN\<close> kept apart: \<open>undefined + n\<close>
  is \<open>NaN\<close>, and \<open>NaN\<close> is absorbing. \<open>js_div_len\<close> divides by an array length, which is
  at least 1 at its only call site.
\<close>

datatype jsval = JUndefined | JNaN | JNum real

fun js_add :: "jsval \<Rightarrow> jsval \<Rightarrow> jsval" where
  "js_add (JNum a) (JNum b) = JNum (a + b)"
| "js_add _ _ = JNaN"

fun js_div_len :: "jsval \<Rightarrow> nat \<Rightarrow> jsval" where
  "js_div_len (JNum a) n = JNum (a / real n)"
| "js_div_len _ n = JNaN"

text \<open>
  What a view callback does is outside the repository's dispatch code: it returns a value or
  throws. Callbacks are taken not to call back into the root responder.
\<close>

datatype 'a callback = Returns 'a | Throws

datatype 'a outcome = Normal 'a | Threw 'a

fun and_then :: "'a outcome \<Rightarrow> ('a \<Rightarrow> 'a outcome) \<Rightarrow> 'a outcome" where
  "and_then (Normal s) f = f s"
| "and_then (Threw s) f = Threw s"

fun state_of :: "'a outcome \<Rightarrow> 'a" where
  "state_of (Normal s) = s"
| "state_of (Threw s) = s"

section \<open>Touch records and the view-touch index (renderer.js, RootResponder)\<close>

text \<open>
  \<open>touchIdentifier\<close> is the field \<open>identifier\<close> of \<open>SC.Touch\<close>; \<open>touchResponders\<close> is
  \<open>None\<close> once \<open>touchend\<close> has set it to \<open>null\<close>.
\<close>

record touch =
  touchIdentifier :: nat
  targetView :: "guid ref"
  view :: "guid ref"
  touchResponder :: "guid ref"
  nextTouchResponder :: "guid ref"
  touchResponders :: "guid list option"
  pageX :: real
  pageY :: real
  timeStamp :: real

text \<open>
  Modelled from the spec: \<open>SC.CoreSet\<close>, the class of a view entry's \<open>touches\<close>, is not
  among the sources; the spec calls it "a set of touch identifiers". It is a list without
  repetition here: \<open>add\<close> appends an absent element, \<open>remove\<close> deletes the element,
  \<open>toArray\<close> is the list and \<open>length\<close> its length.
\<close>

definition coreSet_add :: "'a \<Rightarrow> 'a list \<Rightarrow> 'a list" where
  "coreSet_add a xs = (if a \<in> set xs then xs else xs @ [a])"

definition coreSet_remove :: "'a \<Rightarrow> 'a list \<Rightarrow> 'a list" where
  "coreSet_remove a xs = removeAll a xs"

record viewEntry =
  entryView :: "guid ref"
  touches :: "addr list"
  touchCount :: int

datatype event =
    SetHasTouch guid bool
  | TryToPerform guid string addr
  | SendEvent string addr "guid ref"
  | LoggerWarn

text \<open>
  The root responder: \<open>_touchedViews\<close> and \<open>_touches\<close> (written \<open>priv_\<close> for the leading
  underscore), the touch objects they refer to, the \<open>hasTouch\<close> property of every view, and
  the calls made on views in the order they were made.
\<close>

record responder =
  priv_touchedViews :: "guid \<rightharpoonup> viewEntry"
  priv_touches :: "nat \<rightharpoonup> addr"
  heap :: "addr \<Rightarrow> touch"
  hasTouch :: "guid \<Rightarrow> bool"
  events :: "event list"

text \<open>
  The collaborators the dispatch code calls: the view tree's \<open>nextResponder\<close> link, the
  \<open>acceptsMultitouch\<close> property, \<open>tryToPerform\<close> on a view, the pane's \<open>sendEvent\<close>
  (which answers with the view that handled the event, or \<open>null\<close>), and the root
  responder's own identity (\<open>this\<close>).
\<close>

record env =
  nextResponder :: "guid \<Rightarrow> guid ref"
  acceptsMultitouch :: "guid \<Rightarrow> bool"
  tryToPerform :: "guid \<Rightarrow> string \<Rightarrow> addr \<Rightarrow> bool callback"
  paneSendEvent :: "string \<Rightarrow> addr \<Rightarrow> guid ref \<Rightarrow> guid ref callback"
  this_guid :: guid

definition touchesForView :: "responder \<Rightarrow> guid \<Rightarrow> addr list option" where
  "touchesForView s v =
     (case priv_touchedViews s v of
        Some e \<Rightarrow> Some (touches e)
      | None \<Rightarrow> None)"

subsection \<open>averagedTouchesForView\<close>

record averaged =
  avg_x :: real
  avg_y :: real
  avg_d :: jsval
  avg_touchCount :: nat

fun addLoop :: "touch list \<Rightarrow> real \<times> real \<Rightarrow> real \<times> real" where
  "addLoop [] (ax, ay) = (ax, ay)"
| "addLoop (tch # rest) (ax, ay) = addLoop rest (ax + pageX tch, ay + pageY tch)"

fun distanceLoop :: "touch list \<Rightarrow> real \<Rightarrow> real \<Rightarrow> jsval \<Rightarrow> jsval" where
  "distanceLoop [] ax ay ad = ad"
| "distanceLoop (tch # rest) ax ay ad =
     (let dx = \<bar>pageX tch - ax\<bar>;
          dy = \<bar>pageY tch - ay\<bar>
      in distanceLoop rest ax ay (js_add ad (JNum ((dx * dx + dy * dy) powr 0.5))))"

definition averagedTouchesForView :: "responder \<Rightarrow> guid \<Rightarrow> averaged" where
  "averagedTouchesForView s v =
     (case touchesForView s v of
        None \<Rightarrow> \<lparr>avg_x = 0, avg_y = 0, avg_d = JNum 0, avg_touchCount = 0\<rparr>
      | Some t \<Rightarrow>
          if length t = 0 then \<lparr>avg_x = 0, avg_y = 0, avg_d = JNum 0, avg_touchCount = 0\<rparr>
          else
            (let tchs = map (heap s) t;
                 len = length tchs;
                 (sx, sy) = addLoop tchs (0, 0);
                 ax = sx / real len;
                 ay = sy / real len;
                 ad = distanceLoop tchs ax ay JUndefined
             in \<lparr>avg_x = ax, avg_y = ay, avg_d = js_div_len ad len, avg_touchCount = len\<rparr>))"

subsection \<open>assignTouch and unassignTouch\<close>

definition assignTouch :: "addr \<Rightarrow> guid \<Rightarrow> responder \<Rightarrow> responder" where
  "assignTouch t v s =
     (let e = (case priv_touchedViews s v of
                 None \<Rightarrow> \<lparr>entryView = Obj v, touches = [], touchCount = 0\<rparr>
               | Some e0 \<Rightarrow> e0);
          s1 = (if priv_touchedViews s v = None
                then s\<lparr>hasTouch := (hasTouch s)(v := True),
                       events := events s @ [SetHasTouch v True]\<rparr>
                else s)
      in s1\<lparr>heap := (heap s1)(t := (heap s1 t)\<lparr>view := Obj v\<rparr>),
            priv_touchedViews := (priv_touchedViews s1)
              (v \<mapsto> e\<lparr>touches := coreSet_add t (touches e), touchCount := touchCount e + 1\<rparr>)\<rparr>)"

text \<open>
  \<open>unassignTouch\<close> reads \<open>viewEntry.touches\<close> without a check: with no entry for the
  touch's view that is a TypeError.
\<close>

definition unassignTouch :: "addr \<Rightarrow> responder \<Rightarrow> responder outcome" where
  "unassignTouch t s =
     (case view (heap s t) of
        Obj v \<Rightarrow>
          (case priv_touchedViews s v of
             None \<Rightarrow> Threw s
           | Some e0 \<Rightarrow>
               (let e = e0\<lparr>touches := coreSet_remove t (touches e0), touchCount := touchCount e0 - 1\<rparr>;
                    s1 = (if touchCount e < 1
                          then s\<lparr>hasTouch := (hasTouch s)(v := False),
                                 events := events s @ [SetHasTouch v False],
                                 priv_touchedViews := (priv_touchedViews s)(v := None)\<rparr>
                          else s\<lparr>priv_touchedViews := (priv_touchedViews s)(v \<mapsto> e)\<rparr>)
                in Normal (s1\<lparr>heap := (heap s1)(t := (heap s1 t)\<lparr>view := Undefined\<rparr>)\<rparr>)))
      | _ \<Rightarrow> Normal s)"

section \<open>The capture and dispatch engine (renderer.js, RootResponder)\<close>

text \<open>
  \<open>stack_at xs i\<close> is the array read \<open>xs[i]\<close>, which is \<open>undefined\<close> out of range;
  \<open>indexOf xs r\<close> is \<open>xs.indexOf(r)\<close>. A stack only ever holds views.
\<close>

definition stack_at :: "guid list \<Rightarrow> int \<Rightarrow> guid ref" where
  "stack_at xs i = (if 0 \<le> i \<and> i < int (length xs) then Obj (xs ! nat i) else Undefined)"

fun indexFrom :: "guid list \<Rightarrow> guid \<Rightarrow> int \<Rightarrow> int" where
  "indexFrom [] r i = - 1"
| "indexFrom (w # ws) r i = (if w = r then i else indexFrom ws r (i + 1))"

fun indexOf :: "guid list \<Rightarrow> guid ref \<Rightarrow> int" where
  "indexOf xs (Obj r) = indexFrom xs r 0"
| "indexOf xs _ = - 1"

text \<open>
  \<open>sendEvent\<close> of the root responder hands the event to the pane (found from the target, or
  the key or main pane) and returns its answer; \<open>perform\<close> is \<open>view.tryToPerform(action,
  touch)\<close>. Both are recorded in \<open>events\<close>.
\<close>

definition sendEvent ::
  "env \<Rightarrow> string \<Rightarrow> addr \<Rightarrow> guid ref \<Rightarrow> responder \<Rightarrow> responder \<times> guid ref callback" where
  "sendEvent en action evt target s =
     (s\<lparr>events := events s @ [SendEvent action evt target]\<rparr>, paneSendEvent en action evt target)"

definition perform ::
  "env \<Rightarrow> guid \<Rightarrow> string \<Rightarrow> addr \<Rightarrow> responder \<Rightarrow> responder \<times> bool callback" where
  "perform en v action t s =
     (s\<lparr>events := events s @ [TryToPerform v action t]\<rparr>, tryToPerform en v action t)"

subsection \<open>makeTouchResponder\<close>

text \<open>
  The body of the popping loop up to the notification: \<open>touchCancelled\<close> is sent when the
  popped view accepts multitouch or has no entry in the index.
\<close>

definition cancelPopped :: "env \<Rightarrow> addr \<Rightarrow> guid \<Rightarrow> responder \<Rightarrow> responder outcome" where
  "cancelPopped en t l s =
     (if acceptsMultitouch en l \<or> touchesForView s l = None
      then (case perform en l ''touchCancelled'' t s of
              (s1, Returns b) \<Rightarrow> Normal s1
            | (s1, Throws) \<Rightarrow> Threw s1)
      else Normal s)"

text \<open>
  The loop \<open>while (last && last !== responder)\<close> with its variables \<open>idx\<close> and \<open>last\<close>; the
  stack is the array of the touch, changed in place.
\<close>

function popLoop ::
  "env \<Rightarrow> addr \<Rightarrow> guid ref \<Rightarrow> int \<Rightarrow> guid ref \<Rightarrow> responder \<Rightarrow> responder outcome" where
  "popLoop en t rsp idx lst s =
     (case lst of
        Obj l \<Rightarrow>
          if lst \<noteq> rsp then
            (case cancelPopped en t l s of
               Threw s1 \<Rightarrow> Threw s1
             | Normal s1 \<Rightarrow>
                 (case touchResponders (heap s1 t) of
                    None \<Rightarrow> Threw s1
                  | Some stack \<Rightarrow>
                      popLoop en t rsp (idx - 1) (stack_at stack (idx - 1))
                        (s1\<lparr>heap := (heap s1)(t := (heap s1 t)
                           \<lparr>touchResponders := Some (butlast stack),
                            touchResponder := stack_at (butlast stack) (idx - 1),
                            nextTouchResponder := stack_at (butlast stack) (idx - 1 - 1)\<rparr>)\<rparr>)))
          else Normal s
      | _ \<Rightarrow> Normal s)"
  by pat_completeness auto
termination
  by (relation "measure (\<lambda>(en, t, rsp, idx, lst, s). if truthy lst then nat (idx + 1) + 1 else 0)")
     (auto simp: stack_at_def)

declare popLoop.simps [simp del]

text \<open>
  The condition of the popping phase reads \<open>stack.indexOf\<close> or \<open>stack.length\<close>: a TypeError
  when the stack is \<open>null\<close>.
\<close>

definition popPhase :: "env \<Rightarrow> addr \<Rightarrow> guid ref \<Rightarrow> bool \<Rightarrow> responder \<Rightarrow> responder outcome" where
  "popPhase en t rsp shouldStack s =
     (case touchResponders (heap s t) of
        None \<Rightarrow> Threw s
      | Some stack \<Rightarrow>
          if \<not> shouldStack \<or>
             (indexOf stack rsp > - 1 \<and> stack_at stack (int (length stack) - 1) \<noteq> rsp)
          then popLoop en t rsp (int (length stack) - 1)
                 (stack_at stack (int (length stack) - 1)) s
          else Normal s)"

definition pushPhase :: "addr \<Rightarrow> guid ref \<Rightarrow> responder \<Rightarrow> responder outcome" where
  "pushPhase t rsp s =
     (case rsp of
        Obj r \<Rightarrow>
          (let s1 = assignTouch t r s
           in case touchResponders (heap s1 t) of
                None \<Rightarrow> Threw s1
              | Some stack \<Rightarrow>
                  Normal (s1\<lparr>heap := (heap s1)(t := (heap s1 t)
                    \<lparr>touchResponders := Some (stack @ [r]),
                     touchResponder := Obj r,
                     nextTouchResponder := stack_at (stack @ [r]) (int (length (stack @ [r])) - 2)\<rparr>)\<rparr>))
      | _ \<Rightarrow> Normal s)"

definition makeTouchResponder ::
  "env \<Rightarrow> addr \<Rightarrow> guid ref \<Rightarrow> bool \<Rightarrow> responder \<Rightarrow> responder outcome" where
  "makeTouchResponder en t responder0 shouldStack s =
     (if touchResponder (heap s t) = responder0 then Normal s
      else
        (case sendEvent en ''touchStart'' t responder0 s of
           (s1, Throws) \<Rightarrow> Threw s1
         | (s1, Returns rsp) \<Rightarrow>
             if touchResponder (heap s1 t) = rsp then Normal s1
             else
               and_then (unassignTouch t s1) (\<lambda>s2.
               and_then (popPhase en t rsp shouldStack s2) (\<lambda>s3.
               pushPhase t rsp s3))))"

subsection \<open>captureTouch\<close>

text \<open>
  The walk up the \<open>nextResponder\<close> links ends only where the links do: it is a partial
  function, \<open>None\<close> when it does not end.
\<close>

partial_function (option) responderChain ::
  "env \<Rightarrow> guid ref \<Rightarrow> guid \<Rightarrow> guid list \<Rightarrow> guid list option" where
  "responderChain en vw startingPoint chain =
     (case vw of
        Obj v \<Rightarrow>
          if v \<noteq> startingPoint
          then responderChain en (nextResponder en v) startingPoint (chain @ [v])
          else Some chain
      | _ \<Rightarrow> Some chain)"

text \<open>
  The loop \<open>for (idx = 0; idx < len; idx++)\<close> over the chain; past its end comes the call
  with the target that follows the loop.
\<close>

fun captureLoop ::
  "env \<Rightarrow> addr \<Rightarrow> bool \<Rightarrow> guid list \<Rightarrow> guid ref \<Rightarrow> responder \<Rightarrow> responder outcome" where
  "captureLoop en t shouldStack [] target s = makeTouchResponder en t target shouldStack s"
| "captureLoop en t shouldStack (v # rest) target s =
     (case perform en v ''captureTouch'' t s of
        (s1, Throws) \<Rightarrow> Threw s1
      | (s1, Returns True) \<Rightarrow> makeTouchResponder en t (Obj v) shouldStack s1
      | (s1, Returns False) \<Rightarrow> captureLoop en t shouldStack rest target s1)"

definition captureTouch ::
  "env \<Rightarrow> addr \<Rightarrow> guid ref \<Rightarrow> bool \<Rightarrow> responder \<Rightarrow> responder outcome option" where
  "captureTouch en t startingPoint shouldStack s =
     (let sp = (case startingPoint of Obj p \<Rightarrow> p | _ \<Rightarrow> this_guid en);
          target = targetView (heap s t)
      in case responderChain en target sp [] of
           None \<Rightarrow> None
         | Some chain \<Rightarrow> Some (captureLoop en t shouldStack chain target s))"

subsection \<open>touchend and touchcancel\<close>

record rawTouch =
  raw_identifier :: nat
  raw_pageX :: real
  raw_pageY :: real

record touchEvent =
  changedTouches :: "rawTouch list"
  isCancel :: bool
  evt_timeStamp :: real

text \<open>
  The loop \<open>while (responder)\<close> over the stack of one touch. It returns the value of the
  variable \<open>action\<close> with the state, since \<open>action\<close> is declared outside the loop over the
  touches.
\<close>

function walkResponders ::
  "env \<Rightarrow> addr \<Rightarrow> guid list \<Rightarrow> int \<Rightarrow> guid ref \<Rightarrow> string \<Rightarrow> responder
     \<Rightarrow> (responder \<times> string) outcome" where
  "walkResponders en t responders responderIdx rsp action s =
     (case rsp of
        Obj r \<Rightarrow>
          (case perform en r action t s of
             (s1, Throws) \<Rightarrow> Threw (s1, action)
           | (s1, Returns b) \<Rightarrow>
               walkResponders en t responders (responderIdx - 1)
                 (stack_at responders (responderIdx - 1)) ''touchCancelled'' s1)
      | _ \<Rightarrow> Normal (s, action))"
  by pat_completeness auto
termination
  by (relation "measure (\<lambda>(en, t, responders, idx, rsp, action, s).
                  if truthy rsp then nat (idx + 1) + 1 else 0)")
     (auto simp: stack_at_def)

declare walkResponders.simps [simp del]

text \<open>
  The body of the loop over the changed touches. \<open>this._touches[touch.identifier]\<close> is used
  without a check: an unknown identifier is a TypeError.
\<close>

definition endTouch ::
  "env \<Rightarrow> touchEvent \<Rightarrow> rawTouch \<Rightarrow> string \<Rightarrow> responder \<Rightarrow> (responder \<times> string) outcome" where
  "endTouch en evt raw action s =
     (case priv_touches s (raw_identifier raw) of
        None \<Rightarrow> Threw (s, action)
      | Some a \<Rightarrow>
          (let s1 = s\<lparr>heap := (heap s)(a := (heap s a)
                      \<lparr>timeStamp := evt_timeStamp evt, pageX := raw_pageX raw, pageY := raw_pageY raw\<rparr>)\<rparr>
           in case unassignTouch a s1 of
                Threw s2 \<Rightarrow> Threw (s2, action)
              | Normal s2 \<Rightarrow>
                  (case (if truthy (touchResponder (heap s2 a))
                         then (case touchResponders (heap s2 a) of
                                 None \<Rightarrow> Threw (s2, action)
                               | Some responders \<Rightarrow>
                                   walkResponders en a responders (int (length responders) - 1)
                                     (stack_at responders (int (length responders) - 1)) action s2)
                         else Normal (s2, action)) of
                     Threw x \<Rightarrow> Threw x
                   | Normal (s3, action') \<Rightarrow>
                       (let s4 = s3\<lparr>heap := (heap s3)(a := (heap s3 a)
                                   \<lparr>touchResponders := None, touchResponder := Null,
                                    nextTouchResponder := Null\<rparr>)\<rparr>
                        in Normal (s4\<lparr>priv_touches :=
                                        (priv_touches s4)(touchIdentifier (heap s4 a) := None)\<rparr>,
                                   action')))))"

fun endLoop ::
  "env \<Rightarrow> touchEvent \<Rightarrow> rawTouch list \<Rightarrow> string \<Rightarrow> responder \<Rightarrow> (responder \<times> string) outcome" where
  "endLoop en evt [] action s = Normal (s, action)"
| "endLoop en evt (raw # rest) action s =
     (case endTouch en evt raw action s of
        Threw x \<Rightarrow> Threw x
      | Normal (s1, action') \<Rightarrow> endLoop en evt rest action' s1)"

text \<open>
  \<open>touchend\<close>: the \<open>try\<close> block around the loop, and the \<open>catch\<close> that logs a warning (it
  also sets \<open>_touchViews\<close>, a property that nothing here reads, to \<open>null\<close>). The calls of
  \<open>SC.RunLoop.begin\<close> and \<open>SC.RunLoop.end\<close> around it, and around \<open>sendEvent\<close>, change
  nothing that is modelled.
\<close>

definition touchend :: "env \<Rightarrow> touchEvent \<Rightarrow> responder \<Rightarrow> responder" where
  "touchend en evt s =
     (case endLoop en evt (changedTouches evt)
             (if isCancel evt then ''touchCancelled'' else ''touchEnd'') s of
        Normal (s1, action) \<Rightarrow> s1
      | Threw (s1, action) \<Rightarrow> s1\<lparr>events := events s1 @ [LoggerWarn]\<rparr>)"

definition touchcancel :: "env \<Rightarrow> touchEvent \<Rightarrow> responder \<Rightarrow> responder" where
  "touchcancel en evt s = touchend en (evt\<lparr>isCancel := True\<rparr>) s"

section \<open>Inertial scrolling (scroll.js, decelerateAnimation)\<close>

record scrollTouch =
  decelerationVelocity_y :: real
  lastEventTime :: real
  decelerationFromEdge :: real
  accelerationFromEdge :: real
  timeout :: "nat option"

text \<open>
  The scroll view: the fast-path offset \<open>_scroll_verticalScrollOffset\<close>, the layer's
  transform, the values the observable property \<open>verticalScrollOffset\<close> was set to through
  \<open>set\<close>, what \<open>maximumVerticalScrollOffset\<close> is computed from, and the gesture state
  \<open>this.touch\<close>.
\<close>

record scrollView =
  priv_scroll_verticalScrollOffset :: real
  layerTranslateY :: real
  propertySets :: "real list"
  canScrollVertical :: bool
  contentHeight :: real
  containerHeight :: real
  scroll_touch :: scrollTouch

definition maximumVerticalScrollOffset :: "scrollView \<Rightarrow> real" where
  "maximumVerticalScrollOffset sv =
     (if \<not> canScrollVertical sv then 0 else max 0 (contentHeight sv - containerHeight sv))"

text \<open>
  \<open>this.set("verticalScrollOffset", value)\<close>: the property's setter clamps the value into
  the scroll range and stores it in \<open>_scroll_verticalScrollOffset\<close>.
\<close>

definition set_verticalScrollOffset :: "real \<Rightarrow> scrollView \<Rightarrow> scrollView" where
  "set_verticalScrollOffset v sv =
     sv\<lparr>priv_scroll_verticalScrollOffset := max 0 (min (maximumVerticalScrollOffset sv) v),
        propertySets := propertySets sv @ [v]\<rparr>"

text \<open>
  One tick. \<open>now\<close> and \<open>now'\<close> are the two readings of \<open>Date.now()\<close>, \<open>h\<close> the handle
  \<open>setTimeout\<close> returns when the next tick is scheduled.
\<close>

definition decelerateAnimation :: "real \<Rightarrow> real \<Rightarrow> nat \<Rightarrow> scrollView \<Rightarrow> scrollView" where
  "decelerateAnimation now now' h sv =
     (let tch = scroll_touch sv;
          maxOffset = maximumVerticalScrollOffset sv;
          newY = priv_scroll_verticalScrollOffset sv + decelerationVelocity_y tch;
          t = max (now - lastEventTime tch) 1;
          sv1 = sv\<lparr>priv_scroll_verticalScrollOffset := newY, layerTranslateY := - newY\<rparr>;
          decay = 0.950;
          v0 = decelerationVelocity_y tch * (decay powr (t / 10));
          v1 = (if newY < 0
                then (if v0 < 0 then v0 + (- newY * decelerationFromEdge tch)
                      else - newY * accelerationFromEdge tch)
                else if newY > maxOffset
                then (if v0 > 0 then v0 - ((newY - maxOffset) * decelerationFromEdge tch)
                      else - ((newY - maxOffset) * accelerationFromEdge tch))
                else v0);
          absYVelocity = \<bar>v1\<bar>
      in if absYVelocity < 1 \<and> newY > 0 \<and> newY < maxOffset
         then set_verticalScrollOffset (priv_scroll_verticalScrollOffset sv1)
                (sv1\<lparr>scroll_touch := tch\<lparr>decelerationVelocity_y := v1, timeout := None\<rparr>\<rparr>)
         else sv1\<lparr>scroll_touch := tch\<lparr>decelerationVelocity_y := v1, lastEventTime := now',
                                      timeout := Some h\<rparr>\<rparr>)"

section \<open>States, views and event sequences used in the statements\<close>

text \<open>
  \<open>newTouch\<close> is the constructor \<open>SC.Touch\<close>; \<open>initial\<close> is a root responder with nothing
  registered, no view touched and every touch object as the constructor leaves it.
\<close>

definition newTouch :: "nat \<Rightarrow> guid ref \<Rightarrow> real \<Rightarrow> real \<Rightarrow> touch" where
  "newTouch i target px py =
     \<lparr>touchIdentifier = i, targetView = target, view = Undefined, touchResponder = Undefined,
      nextTouchResponder = Undefined, touchResponders = Some [], pageX = px, pageY = py,
      timeStamp = 0\<rparr>"

definition initial :: responder where
  "initial =
     \<lparr>priv_touchedViews = Map.empty, priv_touches = Map.empty,
      heap = (\<lambda>a. newTouch a Undefined 0 0), hasTouch = (\<lambda>v. False), events = []\<rparr>"

text \<open>
  Views that stand alone, do not accept multitouch, answer every callback with \<open>YES\<close> and
  accept every \<open>touchStart\<close> themselves.
\<close>

definition accepting :: env where
  "accepting =
     \<lparr>nextResponder = (\<lambda>v. Null), acceptsMultitouch = (\<lambda>v. False),
      tryToPerform = (\<lambda>v action t. Returns True),
      paneSendEvent = (\<lambda>action t target. Returns target), this_guid = 0\<rparr>"

subsection \<open>Sequences of dispatch operations\<close>

datatype dispatch_op =
    CaptureTouch addr "guid ref" bool
  | MakeTouchResponder addr "guid ref" bool
  | TouchEnd touchEvent

fun dispatch_step :: "env \<Rightarrow> dispatch_op \<Rightarrow> responder \<Rightarrow> responder outcome option" where
  "dispatch_step en (CaptureTouch t startingPoint shouldStack) s =
     captureTouch en t startingPoint shouldStack s"
| "dispatch_step en (MakeTouchResponder t rsp shouldStack) s =
     Some (makeTouchResponder en t rsp shouldStack s)"
| "dispatch_step en (TouchEnd evt) s = Some (Normal (touchend en evt s))"

fun run_ops :: "env \<Rightarrow> dispatch_op list \<Rightarrow> responder \<Rightarrow> responder outcome option" where
  "run_ops en [] s = Some (Normal s)"
| "run_ops en (x # xs) s =
     (case dispatch_step en x s of
        None \<Rightarrow> None
      | Some (Threw s1) \<Rightarrow> Some (Threw s1)
      | Some (Normal s1) \<Rightarrow> run_ops en xs s1)"

text \<open>
  The stacking scenario: view 10 (A), then view 20 (B) stacked on it, for touch 0.
\<close>

definition stacked_A_B :: "responder outcome" where
  "stacked_A_B =
     and_then (makeTouchResponder accepting 0 (Obj 10) True initial)
       (makeTouchResponder accepting 0 (Obj 20) True)"

definition popped_to_A :: "responder outcome" where
  "popped_to_A = and_then stacked_A_B (makeTouchResponder accepting 0 (Obj 10) True)"

text \<open>
  What the responder stack of a touch is meant to satisfy: no view twice, \<open>touchResponder\<close>
  the last element and \<open>nextTouchResponder\<close> the one before it (\<open>undefined\<close> where there
  is none; both are \<open>null\<close> once \<open>touchend\<close> has cleared the touch).
\<close>

definition no_duplicates :: "touch \<Rightarrow> bool" where
  "no_duplicates tch =
     (case touchResponders tch of
        None \<Rightarrow> True
      | Some stack \<Rightarrow> distinct stack)"

definition pointers_ok :: "touch \<Rightarrow> bool" where
  "pointers_ok tch =
     (case touchResponders tch of
        None \<Rightarrow> \<not> truthy (touchResponder tch) \<and> \<not> truthy (nextTouchResponder tch)
      | Some stack \<Rightarrow>
          touchResponder tch = stack_at stack (int (length stack) - 1) \<and>
          nextTouchResponder tch = stack_at stack (int (length stack) - 2))"

definition responder_stack_ok :: "touch \<Rightarrow> bool" where
  "responder_stack_ok tch = (no_duplicates tch \<and> pointers_ok tch)"

definition all_pointers_ok :: "responder \<Rightarrow> bool" where
  "all_pointers_ok s = (\<forall>a. pointers_ok (heap s a))"

subsection \<open>Sequences of assignTouch and unassignTouch\<close>

datatype index_op = Assign addr guid | Unassign addr

fun run_index :: "index_op list \<Rightarrow> responder \<Rightarrow> responder outcome" where
  "run_index [] s = Normal s"
| "run_index (Assign t v # xs) s = run_index xs (assignTouch t v s)"
| "run_index (Unassign t # xs) s =
     (case unassignTouch t s of
        Threw s1 \<Rightarrow> Threw s1
      | Normal s1 \<Rightarrow> run_index xs s1)"

text \<open>
  A sequence is disciplined when \<open>assignTouch\<close> is never called for a touch that is already
  in the touch set of that view. (\<open>makeTouchResponder\<close> calls \<open>unassignTouch\<close> before every
  \<open>assignTouch\<close>.)
\<close>

definition in_touch_set :: "responder \<Rightarrow> addr \<Rightarrow> guid \<Rightarrow> bool" where
  "in_touch_set s t v =
     (case touchesForView s v of
        None \<Rightarrow> False
      | Some ts \<Rightarrow> t \<in> set ts)"

fun disciplined :: "index_op list \<Rightarrow> responder \<Rightarrow> bool" where
  "disciplined [] s = True"
| "disciplined (Assign t v # xs) s =
     (\<not> in_touch_set s t v \<and> disciplined xs (assignTouch t v s))"
| "disciplined (Unassign t # xs) s =
     (case unassignTouch t s of
        Threw s1 \<Rightarrow> True
      | Normal s1 \<Rightarrow> disciplined xs s1)"

text \<open>
  A view has touches when \<open>touchesForView\<close> gives a non-empty set. \<open>hasTouch_writes\<close> are
  the values \<open>view.set("hasTouch", ...)\<close> was called with for one view, in order.
  \<open>one_write_per_transition s s'\<close>: between the states \<open>s\<close> and \<open>s'\<close>, \<open>hasTouch\<close> of a
  view is written exactly once, with the new value, if the view went from having no touches
  to having some or back, and is not written otherwise.
\<close>

definition has_touches :: "responder \<Rightarrow> guid \<Rightarrow> bool" where
  "has_touches s v =
     (case touchesForView s v of
        None \<Rightarrow> False
      | Some ts \<Rightarrow> ts \<noteq> [])"

fun hasTouch_writes :: "guid \<Rightarrow> event list \<Rightarrow> bool list" where
  "hasTouch_writes v [] = []"
| "hasTouch_writes v (SetHasTouch w b # es) =
     (if w = v then b # hasTouch_writes v es else hasTouch_writes v es)"
| "hasTouch_writes v (e # es) = hasTouch_writes v es"

definition one_write_per_transition :: "responder \<Rightarrow> responder \<Rightarrow> bool" where
  "one_write_per_transition s s' =
     (\<forall>v. hasTouch_writes v (events s') =
            hasTouch_writes v (events s) @
              (if has_touches s' v = has_touches s v then [] else [has_touches s' v]))"

text \<open>
  What the index satisfies between the calls of a disciplined sequence: an entry exists
  for the views with \<open>hasTouch\<close>, its touch set is non-empty and counted by \<open>touchCount\<close>,
  and the view a touch names has the touch in its set.
\<close>

definition entries_ok :: "responder \<Rightarrow> bool" where
  "entries_ok s =
     (\<forall>v. case priv_touchedViews s v of
            None \<Rightarrow> \<not> hasTouch s v
          | Some e \<Rightarrow> hasTouch s v \<and> touches e \<noteq> [] \<and> distinct (touches e) \<and>
                      touchCount e = int (length (touches e)))"

definition views_ok :: "responder \<Rightarrow> bool" where
  "views_ok s = (\<forall>t v. view (heap s t) = Obj v \<longrightarrow> in_touch_set s t v)"

definition index_inv :: "responder \<Rightarrow> bool" where
  "index_inv s = (entries_ok s \<and> views_ok s)"

text \<open>
  Two touches assigned to view 10, then unassigned one after the other.
\<close>

definition fan_out :: "index_op list" where
  "fan_out = [Assign 7 10, Assign 8 10, Unassign 7, Unassign 8]"

subsection \<open>Views in a chain\<close>

text \<open>
  View 30 inside view 20 inside view 10; every view answers \<open>YES\<close> to \<open>captureTouch\<close>.
\<close>

definition nested :: env where
  "nested =
     \<lparr>nextResponder = (\<lambda>v. if v = 30 then Obj 20 else if v = 20 then Obj 10 else Null),
      acceptsMultitouch = (\<lambda>v. False),
      tryToPerform = (\<lambda>v action t. Returns True),
      paneSendEvent = (\<lambda>action t target. Returns target), this_guid = 0\<rparr>"

definition touch_on_30 :: responder where
  "touch_on_30 = initial\<lparr>heap := (heap initial)(0 := newTouch 0 (Obj 30) 0 0)\<rparr>"

text \<open>
  The same views, answering \<open>NO\<close> to \<open>captureTouch\<close> and \<open>YES\<close> to everything else.
\<close>

definition shy :: env where
  "shy = nested\<lparr>tryToPerform := (\<lambda>v action t. Returns (action \<noteq> ''captureTouch''))\<rparr>"

subsection \<open>Popped views\<close>

text \<open>
  The views the popping loop removes, from the top of the stack down to the responder it
  stops at, and the views it leaves.
\<close>

definition popped :: "guid list \<Rightarrow> guid ref \<Rightarrow> guid list" where
  "popped stack rsp = takeWhile (\<lambda>v. Obj v \<noteq> rsp) (rev stack)"

definition kept :: "guid list \<Rightarrow> guid ref \<Rightarrow> guid list" where
  "kept stack rsp = rev (dropWhile (\<lambda>v. Obj v \<noteq> rsp) (rev stack))"

text \<open>
  Touches 7 and 8 registered under their identifiers, both with view 10 as responder.
\<close>

definition two_registered :: responder where
  "two_registered = initial\<lparr>priv_touches := [7 \<mapsto> 7, 8 \<mapsto> 8]\<rparr>"

definition both_on_10 :: "responder outcome" where
  "both_on_10 =
     and_then (makeTouchResponder accepting 7 (Obj 10) False two_registered)
       (makeTouchResponder accepting 8 (Obj 10) False)"

definition multitouch :: env where
  "multitouch = accepting\<lparr>acceptsMultitouch := (\<lambda>v. True)\<rparr>"

text \<open>
  Touch 7 with view 10 as responder, touch 8 with view 20.
\<close>

definition on_10_and_20 :: "responder outcome" where
  "on_10_and_20 =
     and_then (makeTouchResponder accepting 7 (Obj 10) False two_registered)
       (makeTouchResponder accepting 8 (Obj 20) False)"

definition end_of_both :: touchEvent where
  "end_of_both =
     \<lparr>changedTouches = [\<lparr>raw_identifier = 7, raw_pageX = 0, raw_pageY = 0\<rparr>,
                        \<lparr>raw_identifier = 8, raw_pageX = 0, raw_pageY = 0\<rparr>],
      isCancel = False, evt_timeStamp = 5\<rparr>"

text \<open>
  Views whose \<open>touchEnd\<close> throws; and views of which only view 10 accepts \<open>touchStart\<close>,
  the pane answering \<open>null\<close> for every other target.
\<close>

definition throwing :: env where
  "throwing =
     accepting\<lparr>tryToPerform := (\<lambda>v action t. if action = ''touchEnd'' then Throws else Returns True)\<rparr>"

definition declining :: env where
  "declining =
     accepting\<lparr>paneSendEvent :=
       (\<lambda>action t target. if target = Obj 10 then Returns (Obj 10) else Returns Null)\<rparr>"

definition touch_0_on_10 :: "responder outcome" where
  "touch_0_on_10 = makeTouchResponder declining 0 (Obj 10) False initial"

definition declined_offer :: "responder outcome" where
  "declined_offer = makeTouchResponder declining 0 (Obj 30) False (state_of touch_0_on_10)"

definition declined_while_stacking :: "responder outcome" where
  "declined_while_stacking = makeTouchResponder declining 0 (Obj 30) True (state_of touch_0_on_10)"

definition popped_multitouch :: "responder outcome" where
  "popped_multitouch = makeTouchResponder multitouch 7 (Obj 30) False (state_of both_on_10)"

definition popped_single_touch :: "responder outcome" where
  "popped_single_touch = makeTouchResponder accepting 7 (Obj 30) False (state_of both_on_10)"

subsection \<open>A view with one touch; a scroll view at rest\<close>

definition one_touch_at_3_4 :: responder where
  "one_touch_at_3_4 =
     assignTouch 0 10 (initial\<lparr>heap := (heap initial)(0 := newTouch 0 (Obj 10) 3 4)\<rparr>)"

text \<open>
  A scroll view with content of height \<open>content\<close> in a container of height \<open>container\<close>,
  at offset \<open>y\<close> with deceleration velocity 0 and no tick scheduled.
\<close>

definition atRest :: "real \<Rightarrow> real \<Rightarrow> real \<Rightarrow> scrollView" where
  "atRest content container y =
     \<lparr>priv_scroll_verticalScrollOffset = y, layerTranslateY = - y, propertySets = [],
      canScrollVertical = True, contentHeight = content, containerHeight = container,
      scroll_touch = \<lparr>decelerationVelocity_y = 0, lastEventTime = 0,
        decelerationFromEdge = 0.05, accelerationFromEdge = 0.08, timeout = None\<rparr>\<rparr>"

section \<open>Evaluation lemmas\<close>

lemma stack_at_Nil: "stack_at [] i = Undefined"
  by (simp add: stack_at_def)

lemma stack_at_Cons:
  "stack_at (w # ws) i =
     (if i = 0 then Obj w else if i < 0 then Undefined else stack_at ws (i - 1))"
  by (auto simp: stack_at_def nth_Cons' nat_diff_distrib)

lemma stack_at_top: "stack_at (xs @ [x]) (int (length xs)) = Obj x"
  by (simp add: stack_at_def)

lemma stack_at_prefix:
  "stack_at (xs @ ys) (int (length xs) - 1) = stack_at xs (int (length xs) - 1)"
proof (cases "xs = []")
  case True
  then show ?thesis by (simp add: stack_at_def)
next
  case False
  then have "nat (int (length xs) - 1) < length xs"
    by (cases xs) auto
  then show ?thesis
    using False by (simp add: stack_at_def nth_append)
qed

lemma stack_at_below_top:
  "stack_at (xs @ [x]) (int (length xs) - 1) = stack_at xs (int (length xs) - 1)"
  by (rule stack_at_prefix)

lemmas dispatch_eval =
  makeTouchResponder_def sendEvent_def unassignTouch_def popPhase_def pushPhase_def
  assignTouch_def coreSet_add_def coreSet_remove_def cancelPopped_def perform_def
  touchesForView_def Let_def initial_def newTouch_def stack_at_Nil stack_at_Cons
  popLoop.simps

lemmas end_eval = touchend_def endTouch_def walkResponders.simps

lemma stacked_A_B_value:
  "stacked_A_B = Normal
     \<lparr>priv_touchedViews = [20 \<mapsto> \<lparr>entryView = Obj 20, touches = [0], touchCount = 1\<rparr>],
      priv_touches = Map.empty,
      heap = (heap initial)
        (0 := \<lparr>touchIdentifier = 0, targetView = Undefined, view = Obj 20,
               touchResponder = Obj 20, nextTouchResponder = Obj 10,
               touchResponders = Some [10, 20], pageX = 0, pageY = 0, timeStamp = 0\<rparr>),
      hasTouch = (\<lambda>v. False)(10 := False, 20 := True),
      events = [SendEvent ''touchStart'' 0 (Obj 10), SetHasTouch 10 True,
                SendEvent ''touchStart'' 0 (Obj 20), SetHasTouch 10 False,
                SetHasTouch 20 True]\<rparr>"
  by (simp add: stacked_A_B_def accepting_def dispatch_eval)

lemma popped_to_A_value:
  "popped_to_A = Normal
     \<lparr>priv_touchedViews = [10 \<mapsto> \<lparr>entryView = Obj 10, touches = [0], touchCount = 1\<rparr>],
      priv_touches = Map.empty,
      heap = (heap initial)
        (0 := \<lparr>touchIdentifier = 0, targetView = Undefined, view = Obj 10,
               touchResponder = Obj 10, nextTouchResponder = Obj 10,
               touchResponders = Some [10, 10], pageX = 0, pageY = 0, timeStamp = 0\<rparr>),
      hasTouch = (\<lambda>v. False)(20 := False, 10 := True),
      events = [SendEvent ''touchStart'' 0 (Obj 10), SetHasTouch 10 True,
                SendEvent ''touchStart'' 0 (Obj 20), SetHasTouch 10 False,
                SetHasTouch 20 True, SendEvent ''touchStart'' 0 (Obj 10),
                SetHasTouch 20 False, TryToPerform 20 ''touchCancelled'' 0,
                SetHasTouch 10 True]\<rparr>"
  by (simp add: popped_to_A_def stacked_A_B_value accepting_def dispatch_eval)

lemma both_on_10_value:
  "both_on_10 = Normal
     \<lparr>priv_touchedViews = [10 \<mapsto> \<lparr>entryView = Obj 10, touches = [7, 8], touchCount = 2\<rparr>],
      priv_touches = [7 \<mapsto> 7, 8 \<mapsto> 8],
      heap = (heap initial)
        (7 := \<lparr>touchIdentifier = 7, targetView = Undefined, view = Obj 10,
               touchResponder = Obj 10, nextTouchResponder = Undefined,
               touchResponders = Some [10], pageX = 0, pageY = 0, timeStamp = 0\<rparr>,
         8 := \<lparr>touchIdentifier = 8, targetView = Undefined, view = Obj 10,
               touchResponder = Obj 10, nextTouchResponder = Undefined,
               touchResponders = Some [10], pageX = 0, pageY = 0, timeStamp = 0\<rparr>),
      hasTouch = (\<lambda>v. False)(10 := True),
      events = [SendEvent ''touchStart'' 7 (Obj 10), SetHasTouch 10 True,
                SendEvent ''touchStart'' 8 (Obj 10)]\<rparr>"
  by (simp add: both_on_10_def two_registered_def accepting_def dispatch_eval)

lemma on_10_and_20_value:
  "on_10_and_20 = Normal
     \<lparr>priv_touchedViews = [10 \<mapsto> \<lparr>entryView = Obj 10, touches = [7], touchCount = 1\<rparr>,
                           20 \<mapsto> \<lparr>entryView = Obj 20, touches = [8], touchCount = 1\<rparr>],
      priv_touches = [7 \<mapsto> 7, 8 \<mapsto> 8],
      heap = (heap initial)
        (7 := \<lparr>touchIdentifier = 7, targetView = Undefined, view = Obj 10,
               touchResponder = Obj 10, nextTouchResponder = Undefined,
               touchResponders = Some [10], pageX = 0, pageY = 0, timeStamp = 0\<rparr>,
         8 := \<lparr>touchIdentifier = 8, targetView = Undefined, view = Obj 20,
               touchResponder = Obj 20, nextTouchResponder = Undefined,
               touchResponders = Some [20], pageX = 0, pageY = 0, timeStamp = 0\<rparr>),
      hasTouch = (\<lambda>v. False)(10 := True, 20 := True),
      events = [SendEvent ''touchStart'' 7 (Obj 10), SetHasTouch 10 True,
                SendEvent ''touchStart'' 8 (Obj 20), SetHasTouch 20 True]\<rparr>"
  by (simp add: on_10_and_20_def two_registered_def accepting_def dispatch_eval)

lemma touch_0_on_10_value:
  "touch_0_on_10 = Normal
     \<lparr>priv_touchedViews = [10 \<mapsto> \<lparr>entryView = Obj 10, touches = [0], touchCount = 1\<rparr>],
      priv_touches = Map.empty,
      heap = (heap initial)
        (0 := \<lparr>touchIdentifier = 0, targetView = Undefined, view = Obj 10,
               touchResponder = Obj 10, nextTouchResponder = Undefined,
               touchResponders = Some [10], pageX = 0, pageY = 0, timeStamp = 0\<rparr>),
      hasTouch = (\<lambda>v. False)(10 := True),
      events = [SendEvent ''touchStart'' 0 (Obj 10), SetHasTouch 10 True]\<rparr>"
  by (simp add: touch_0_on_10_def declining_def accepting_def dispatch_eval)

section \<open>The view-touch index\<close>

lemma hasTouch_writes_append:
  "hasTouch_writes v (xs @ ys) = hasTouch_writes v xs @ hasTouch_writes v ys"
  by (induction v xs rule: hasTouch_writes.induct) auto

lemma index_inv_initial: "index_inv initial"
  by (simp add: index_inv_def entries_ok_def views_ok_def initial_def newTouch_def)

lemma entries_okD:
  "entries_ok s \<Longrightarrow>
     (case priv_touchedViews s v of
        None \<Rightarrow> \<not> hasTouch s v
      | Some e \<Rightarrow> hasTouch s v \<and> touches e \<noteq> [] \<and> distinct (touches e) \<and>
                  touchCount e = int (length (touches e)))"
  by (simp add: entries_ok_def)

lemma views_okD: "views_ok s \<Longrightarrow> view (heap s t) = Obj v \<Longrightarrow> in_touch_set s t v"
  by (simp add: views_ok_def)

lemma assignTouch_inv:
  assumes "index_inv s" "\<not> in_touch_set s t v"
  shows "index_inv (assignTouch t v s)"
proof -
  from assms(1) have E: "entries_ok s" and V: "views_ok s"
    by (simp_all add: index_inv_def)
  have e: "entries_ok (assignTouch t v s)"
    unfolding entries_ok_def
  proof
    fix w
    show "case priv_touchedViews (assignTouch t v s) w of
            None \<Rightarrow> \<not> hasTouch (assignTouch t v s) w
          | Some e \<Rightarrow> hasTouch (assignTouch t v s) w \<and> touches e \<noteq> [] \<and>
              distinct (touches e) \<and> touchCount e = int (length (touches e))"
      using entries_okD [OF E, of w] entries_okD [OF E, of v] assms(2)
      by (auto simp: assignTouch_def Let_def coreSet_add_def in_touch_set_def
          touchesForView_def split: option.splits)
  qed
  have vw: "views_ok (assignTouch t v s)"
    unfolding views_ok_def
  proof (intro allI impI)
    fix u w
    assume "view (heap (assignTouch t v s) u) = Obj w"
    then show "in_touch_set (assignTouch t v s) u w"
      using views_okD [OF V, of u w]
      by (auto simp: assignTouch_def Let_def coreSet_add_def in_touch_set_def
          touchesForView_def split: option.splits if_splits)
  qed
  show ?thesis
    using e vw by (simp add: index_inv_def)
qed

lemma unassignTouch_inv:
  assumes "index_inv s"
  shows "\<exists>s'. unassignTouch t s = Normal s' \<and> index_inv s'"
proof (cases "view (heap s t)")
  case (Obj v)
  from assms(1) have E: "entries_ok s" and V: "views_ok s"
    by (simp_all add: index_inv_def)
  from views_okD [OF V Obj] obtain e where
    ent: "priv_touchedViews s v = Some e" and mem: "t \<in> set (touches e)"
    by (auto simp: in_touch_set_def touchesForView_def split: option.splits)
  from entries_okD [OF E, of v] ent have
    ht: "hasTouch s v" and ne: "touches e \<noteq> []" and di: "distinct (touches e)" and
    cnt: "touchCount e = int (length (touches e))"
    by simp_all
  have len: "length (removeAll t (touches e)) = length (touches e) - 1"
    using mem di by (simp add: distinct_removeAll length_remove1 distinct_remove1_removeAll [symmetric])
  have empty_iff: "(touchCount e - 1 < 1) = (removeAll t (touches e) = [])"
    using cnt len ne by (cases "touches e") (auto simp: length_0_conv [symmetric] simp del: length_0_conv)
  have di': "distinct (removeAll t (touches e))"
    using di by (simp add: distinct_removeAll)
  have keep: "removeAll t (touches e) \<noteq> []" if "u \<in> set (touches e)" "u \<noteq> t" for u
  proof
    assume "removeAll t (touches e) = []"
    then have "set (removeAll t (touches e)) = {}" by simp
    with that show False by auto
  qed
  define s' where "s' = state_of (unassignTouch t s)"
  have run: "unassignTouch t s = Normal s'"
    by (simp add: s'_def unassignTouch_def Obj ent Let_def)
  have e': "entries_ok s'"
    unfolding entries_ok_def
  proof
    fix w
    show "case priv_touchedViews s' w of
            None \<Rightarrow> \<not> hasTouch s' w
          | Some e \<Rightarrow> hasTouch s' w \<and> touches e \<noteq> [] \<and>
              distinct (touches e) \<and> touchCount e = int (length (touches e))"
      using entries_okD [OF E, of w] ht di' cnt len empty_iff mem
      by (auto simp: s'_def unassignTouch_def Obj ent Let_def coreSet_remove_def
          split: option.splits)
  qed
  have v': "views_ok s'"
    unfolding views_ok_def
  proof (intro allI impI)
    fix u w
    assume a: "view (heap s' u) = Obj w"
    then have ut: "u \<noteq> t"
      by (auto simp: s'_def unassignTouch_def Obj ent Let_def split: if_splits)
    with a have "view (heap s u) = Obj w"
      by (auto simp: s'_def unassignTouch_def Obj ent Let_def split: if_splits)
    from views_okD [OF V this] ut show "in_touch_set s' u w"
      using empty_iff keep [of u]
      by (auto simp: s'_def unassignTouch_def Obj ent Let_def coreSet_remove_def
          in_touch_set_def touchesForView_def split: option.splits if_splits)
  qed
  show ?thesis
    using run e' v' by (simp add: index_inv_def)
next
  case Undefined
  then show ?thesis using assms by (simp add: unassignTouch_def)
next
  case Null
  then show ?thesis using assms by (simp add: unassignTouch_def)
qed

lemma has_touches_inv: "index_inv s \<Longrightarrow> has_touches s v = (priv_touchedViews s v \<noteq> None)"
  using entries_okD [of s v]
  by (auto simp: index_inv_def has_touches_def touchesForView_def split: option.splits)

lemma assignTouch_writes:
  assumes "index_inv s" "\<not> in_touch_set s t v"
  shows "one_write_per_transition s (assignTouch t v s)"
proof -
  have i': "index_inv (assignTouch t v s)"
    using assms by (rule assignTouch_inv)
  show ?thesis
    unfolding one_write_per_transition_def has_touches_inv [OF assms(1)] has_touches_inv [OF i']
    by (auto simp: assignTouch_def Let_def hasTouch_writes_append)
qed

lemma unassignTouch_writes:
  assumes "index_inv s" "unassignTouch t s = Normal s'"
  shows "one_write_per_transition s s'"
proof -
  from unassignTouch_inv [OF assms(1), of t] assms(2) have i': "index_inv s'"
    by simp
  show ?thesis
    unfolding one_write_per_transition_def has_touches_inv [OF assms(1)] has_touches_inv [OF i']
    using assms(2)
    by (auto simp: unassignTouch_def Let_def hasTouch_writes_append
        split: ref.splits option.splits if_splits)
qed

lemma one_write_refl: "one_write_per_transition s s"
  by (simp add: one_write_per_transition_def)

lemma run_index_inv:
  "disciplined xs s \<Longrightarrow> index_inv s \<Longrightarrow>
     \<exists>s1 s2. run_index (take n xs) s = Normal s1 \<and> index_inv s1 \<and>
             run_index (take (Suc n) xs) s = Normal s2 \<and> one_write_per_transition s1 s2"
proof (induction xs s arbitrary: n rule: disciplined.induct)
  case (1 s)
  then show ?case by (simp add: one_write_refl)
next
  case (2 t v xs s)
  show ?case
  proof (cases n)
    case 0
    then show ?thesis
      using "2.prems" by (simp add: assignTouch_writes)
  next
    case (Suc m)
    from "2.prems" have "disciplined xs (assignTouch t v s)" "index_inv (assignTouch t v s)"
      by (simp_all add: assignTouch_inv)
    from "2.IH" [OF this, of m] show ?thesis
      by (simp add: Suc)
  qed
next
  case (3 t xs s)
  from unassignTouch_inv [OF "3.prems"(2), of t] obtain s1 where
    u: "unassignTouch t s = Normal s1" and i: "index_inv s1"
    by blast
  show ?case
  proof (cases n)
    case 0
    then show ?thesis
      using "3.prems"(2) u unassignTouch_writes [OF "3.prems"(2) u] by simp
  next
    case (Suc m)
    from "3.prems"(1) u have "disciplined xs s1"
      by simp
    from "3.IH" [OF u this i, of m] u
    show ?thesis by (simp add: Suc)
  qed
qed

text \<open>
  C3, as the code has it. In a sequence of \<open>assignTouch\<close> and \<open>unassignTouch\<close> calls from
  the initial state in which no touch is assigned to a view whose touch set already holds
  it, no call throws, and after every call a view has a non-empty touch set if and only if
  its \<open>hasTouch\<close> is true, and if and only if it has an entry in the index (the entry goes
  with the last touch); every call writes \<open>hasTouch\<close> of a view exactly once when the view
  goes from no touches to some or back, and not at all otherwise.
\<close>

theorem index_tracks_hasTouch:
  assumes "disciplined xs initial"
  shows "\<exists>s s'. run_index (take n xs) initial = Normal s \<and>
              run_index (take (Suc n) xs) initial = Normal s' \<and>
              (\<forall>v. has_touches s v = hasTouch s v \<and>
                   (priv_touchedViews s v \<noteq> None) = has_touches s v) \<and>
              one_write_per_transition s s'"
proof -
  from run_index_inv [OF assms index_inv_initial, of n] obtain s s' where
    r: "run_index (take n xs) initial = Normal s"
       "run_index (take (Suc n) xs) initial = Normal s'"
       "one_write_per_transition s s'"
    and i: "index_inv s"
    by blast
  from i have E: "entries_ok s"
    by (simp add: index_inv_def)
  have "has_touches s v = hasTouch s v \<and> (priv_touchedViews s v \<noteq> None) = has_touches s v"
    for v
    using entries_okD [OF E, of v]
    by (auto simp: has_touches_def touchesForView_def split: option.splits)
  with r show ?thesis by blast
qed

text \<open>
  Two touches on view 10: after the first has ended the view still has \<open>hasTouch\<close>, after
  the second it has not, and \<open>hasTouch\<close> was written twice in all.
\<close>

theorem index_tracks_hasTouch_witness:
  "disciplined fan_out initial \<and>
   (\<exists>s s'. run_index (take 3 fan_out) initial = Normal s \<and>
           run_index (take (Suc 3) fan_out) initial = Normal s' \<and>
           (\<forall>v. has_touches s v = hasTouch s v \<and>
                (priv_touchedViews s v \<noteq> None) = has_touches s v) \<and>
           one_write_per_transition s s') \<and>
   hasTouch (state_of (run_index (take 3 fan_out) initial)) 10 \<and>
   \<not> hasTouch (state_of (run_index fan_out initial)) 10 \<and>
   hasTouch_writes 10 (events (state_of (run_index fan_out initial))) = [True, False]"
proof -
  have d: "disciplined fan_out initial"
    by (simp add: fan_out_def in_touch_set_def dispatch_eval)
  have computed:
    "hasTouch (state_of (run_index (take 3 fan_out) initial)) 10 \<and>
     \<not> hasTouch (state_of (run_index fan_out initial)) 10 \<and>
     hasTouch_writes 10 (events (state_of (run_index fan_out initial))) = [True, False]"
    by (simp add: fan_out_def dispatch_eval)
  from index_tracks_hasTouch [OF d, of 3] d computed show ?thesis
    by blast
qed

text \<open>
  C3 as claimed, for any sequence of calls, fails: \<open>assignTouch\<close> twice for the same touch
  and view counts the touch twice in \<open>touchCount\<close> and once in the set, and after one
  \<open>unassignTouch\<close> the view has an entry with an empty touch set and \<open>hasTouch\<close> true.
\<close>

theorem double_assign_leaves_empty_set:
  "run_index [Assign 0 10, Assign 0 10, Unassign 0] initial =
     Normal (state_of (run_index [Assign 0 10, Assign 0 10, Unassign 0] initial)) \<and>
   touchesForView (state_of (run_index [Assign 0 10, Assign 0 10, Unassign 0] initial)) 10
     = Some [] \<and>
   \<not> has_touches (state_of (run_index [Assign 0 10, Assign 0 10, Unassign 0] initial)) 10 \<and>
   hasTouch (state_of (run_index [Assign 0 10, Assign 0 10, Unassign 0] initial)) 10"
  by (simp add: has_touches_def dispatch_eval)

section \<open>The stacking scenario\<close>

text \<open>
  C1. With the stack \<open>[A, B]\<close> of a touch (A = view 10, B = view 20, built by two stacking
  calls), \<open>makeTouchResponder(touch, A, true)\<close> is claimed to send one \<open>touchCancelled\<close> to
  B and to leave the stack \<open>[A]\<close> with \<open>nextTouchResponder\<close> empty. The code sends the one
  notification and pops B, and then pushes A, which the loop had stopped at, once more: the
  stack is \<open>[A, A]\<close> and \<open>nextTouchResponder\<close> is A.
\<close>

theorem pop_to_A_pushes_A_again:
  "touchResponders (heap (state_of stacked_A_B) 0) = Some [10, 20] \<and>
   touchResponder (heap (state_of stacked_A_B) 0) = Obj 20 \<and>
   popped_to_A = Normal (state_of popped_to_A) \<and>
   touchResponders (heap (state_of popped_to_A) 0) = Some [10, 10] \<and>
   touchResponder (heap (state_of popped_to_A) 0) = Obj 10 \<and>
   nextTouchResponder (heap (state_of popped_to_A) 0) = Obj 10 \<and>
   filter (\<lambda>e. e = TryToPerform 20 ''touchCancelled'' 0)
     (drop (length (events (state_of stacked_A_B))) (events (state_of popped_to_A))) =
     [TryToPerform 20 ''touchCancelled'' 0]"
  by (simp add: stacked_A_B_value popped_to_A_value)

text \<open>
  C2. The responder stack of a touch is claimed never to hold a view twice in a state
  reached by \<open>captureTouch\<close>, \<open>makeTouchResponder\<close> and touch-end operations. Three calls of
  \<open>makeTouchResponder\<close> from the initial state reach the stack \<open>[10, 10]\<close>.
\<close>

theorem reachable_stack_with_duplicate:
  "run_ops accepting
     [MakeTouchResponder 0 (Obj 10) True, MakeTouchResponder 0 (Obj 20) True,
      MakeTouchResponder 0 (Obj 10) True] initial = Some popped_to_A \<and>
   popped_to_A = Normal (state_of popped_to_A) \<and>
   touchResponders (heap (state_of popped_to_A) 0) = Some [10, 10] \<and>
   \<not> no_duplicates (heap (state_of popped_to_A) 0) \<and>
   \<not> responder_stack_ok (heap (state_of popped_to_A) 0)"
proof -
  have "run_ops accepting
     [MakeTouchResponder 0 (Obj 10) True, MakeTouchResponder 0 (Obj 20) True,
      MakeTouchResponder 0 (Obj 10) True] initial = Some popped_to_A"
    by (simp add: popped_to_A_def stacked_A_B_def split: outcome.splits)
  then show ?thesis
    by (simp add: popped_to_A_value responder_stack_ok_def no_duplicates_def)
qed

section \<open>The pointers of a touch follow its stack\<close>

lemma all_pointers_ok_fields [simp]:
  "all_pointers_ok (s\<lparr>events := es\<rparr>) = all_pointers_ok s"
  "all_pointers_ok (s\<lparr>hasTouch := h\<rparr>) = all_pointers_ok s"
  "all_pointers_ok (s\<lparr>priv_touchedViews := m\<rparr>) = all_pointers_ok s"
  "all_pointers_ok (s\<lparr>priv_touches := r\<rparr>) = all_pointers_ok s"
  by (simp_all add: all_pointers_ok_def)

lemma all_pointers_ok_heap:
  "all_pointers_ok s \<Longrightarrow> pointers_ok tch \<Longrightarrow>
     all_pointers_ok (s\<lparr>heap := (heap s)(t := tch)\<rparr>)"
  by (simp add: all_pointers_ok_def)

lemma all_pointers_okD: "all_pointers_ok s \<Longrightarrow> pointers_ok (heap s a)"
  by (simp add: all_pointers_ok_def)

lemma pointers_ok_other_fields [simp]:
  "pointers_ok (tch\<lparr>view := x\<rparr>) = pointers_ok tch"
  "pointers_ok (tch\<lparr>timeStamp := ts, pageX := px, pageY := py\<rparr>) = pointers_ok tch"
  by (simp_all add: pointers_ok_def split: option.splits)

lemma all_pointers_ok_initial: "all_pointers_ok initial"
  by (simp add: all_pointers_ok_def pointers_ok_def initial_def newTouch_def stack_at_def)

lemma assignTouch_pointers:
  "all_pointers_ok s \<Longrightarrow> all_pointers_ok (assignTouch t v s)"
  by (simp add: assignTouch_def Let_def all_pointers_ok_heap all_pointers_okD)

lemma unassignTouch_pointers:
  "all_pointers_ok s \<Longrightarrow> all_pointers_ok (state_of (unassignTouch t s))"
  by (simp add: unassignTouch_def Let_def all_pointers_ok_heap all_pointers_okD
      split: option.splits ref.splits)

lemma cancelPopped_heap: "heap (state_of (cancelPopped en t l s)) = heap s"
  by (auto simp: cancelPopped_def perform_def split: callback.splits)

lemma popLoop_pointers:
  assumes "all_pointers_ok s" "touchResponders (heap s t) = Some stack"
  shows "all_pointers_ok (state_of (popLoop en t rsp (int (length stack) - 1)
           (stack_at stack (int (length stack) - 1)) s))"
  using assms
proof (induction stack arbitrary: s rule: rev_induct)
  case Nil
  then show ?case by (simp add: popLoop.simps stack_at_Nil)
next
  case (snoc x xs)
  show ?case
  proof (cases "Obj x = rsp")
    case True
    then have "rsp = Obj x" by simp
    then show ?thesis
      using snoc.prems by (simp add: popLoop.simps stack_at_top)
  next
    case False
    show ?thesis
    proof (cases "cancelPopped en t x s")
      case (Threw s1)
      then have "heap s1 = heap s"
        using cancelPopped_heap [of en t x s] by simp
      then have "all_pointers_ok s1"
        using snoc.prems(1) by (simp add: all_pointers_ok_def)
      then show ?thesis
        using False Threw by (simp add: popLoop.simps stack_at_top)
    next
      case (Normal s1)
      then have h: "heap s1 = heap s"
        using cancelPopped_heap [of en t x s] by simp
      define s2 where "s2 = s1\<lparr>heap := (heap s1)(t := (heap s1 t)
                           \<lparr>touchResponders := Some xs,
                            touchResponder := stack_at xs (int (length xs) - 1),
                            nextTouchResponder := stack_at xs (int (length xs) - 1 - 1)\<rparr>)\<rparr>"
      have step: "popLoop en t rsp (int (length (xs @ [x])) - 1)
                  (stack_at (xs @ [x]) (int (length (xs @ [x])) - 1)) s =
                popLoop en t rsp (int (length xs) - 1) (stack_at xs (int (length xs) - 1)) s2"
        using False Normal h snoc.prems(2)
        by (subst popLoop.simps) (simp add: stack_at_top stack_at_below_top s2_def)
      have "all_pointers_ok s1"
        using snoc.prems(1) h by (simp add: all_pointers_ok_def)
      then have "all_pointers_ok s2"
        unfolding s2_def by (rule all_pointers_ok_heap) (simp add: pointers_ok_def)
      moreover have "touchResponders (heap s2 t) = Some xs"
        by (simp add: s2_def)
      ultimately show ?thesis
        using snoc.IH [of s2] by (simp only: step)
    qed
  qed
qed

lemma popPhase_pointers:
  "all_pointers_ok s \<Longrightarrow> all_pointers_ok (state_of (popPhase en t rsp shouldStack s))"
  by (auto simp: popPhase_def popLoop_pointers split: option.splits)

lemma pushPhase_pointers:
  "all_pointers_ok s \<Longrightarrow> all_pointers_ok (state_of (pushPhase t rsp s))"
proof (cases rsp)
  case (Obj r)
  assume "all_pointers_ok s"
  then have "all_pointers_ok (assignTouch t r s)"
    by (rule assignTouch_pointers)
  moreover have "pointers_ok (tch\<lparr>touchResponders := Some (stack @ [r]),
                    touchResponder := Obj r,
                    nextTouchResponder := stack_at (stack @ [r]) (int (length (stack @ [r])) - 2)\<rparr>)"
    for tch stack
    by (simp add: pointers_ok_def stack_at_top)
  ultimately show ?thesis
    using Obj
    by (simp add: pushPhase_def Let_def all_pointers_ok_heap split: option.splits)
qed (simp_all add: pushPhase_def)

lemma and_then_pointers:
  assumes "all_pointers_ok (state_of x)"
      and "\<And>s. all_pointers_ok s \<Longrightarrow> all_pointers_ok (state_of (f s))"
  shows "all_pointers_ok (state_of (and_then x f))"
  using assms by (cases x) auto

lemma makeTouchResponder_pointers:
  assumes "all_pointers_ok s"
  shows "all_pointers_ok (state_of (makeTouchResponder en t r shouldStack s))"
proof -
  let ?s1 = "s\<lparr>events := events s @ [SendEvent ''touchStart'' t r]\<rparr>"
  have s1: "all_pointers_ok ?s1"
    using assms by simp
  have "all_pointers_ok (state_of
          (and_then (unassignTouch t ?s1) (\<lambda>s2.
           and_then (popPhase en t a shouldStack s2) (\<lambda>s3. pushPhase t a s3))))" for a
    by (intro and_then_pointers unassignTouch_pointers popPhase_pointers pushPhase_pointers s1)
  then show ?thesis
    using assms
    by (auto simp: makeTouchResponder_def sendEvent_def split: callback.splits)
qed

lemma captureLoop_pointers:
  "all_pointers_ok s \<Longrightarrow>
     all_pointers_ok (state_of (captureLoop en t shouldStack chain target s))"
proof (induction chain arbitrary: s)
  case Nil
  then show ?case by (simp add: makeTouchResponder_pointers)
next
  case (Cons v rest)
  let ?s1 = "s\<lparr>events := events s @ [TryToPerform v ''captureTouch'' t]\<rparr>"
  have "all_pointers_ok ?s1"
    using Cons.prems by simp
  then show ?case
    using Cons.IH [of ?s1] makeTouchResponder_pointers [of ?s1 en t "Obj v" shouldStack]
    by (auto simp: perform_def split: callback.splits bool.splits)
qed

lemma captureTouch_pointers:
  "all_pointers_ok s \<Longrightarrow> captureTouch en t startingPoint shouldStack s = Some out \<Longrightarrow>
     all_pointers_ok (state_of out)"
  by (auto simp: captureTouch_def Let_def captureLoop_pointers split: option.splits)

lemma walkResponders_heap:
  "heap (fst (state_of (walkResponders en t responders idx rsp action s))) = heap s"
proof (induction en t responders idx rsp action s rule: walkResponders.induct)
  case (1 en t responders responderIdx rsp action s)
  show ?case
  proof (cases rsp)
    case (Obj r)
    show ?thesis
    proof (cases "tryToPerform en r action t")
      case (Returns b)
      then show ?thesis
        using Obj "1.IH" [of r "s\<lparr>events := events s @ [TryToPerform r action t]\<rparr>"
            "tryToPerform en r action t" b]
        by (subst walkResponders.simps) (simp add: perform_def)
    next
      case Throws
      then show ?thesis
        using Obj by (subst walkResponders.simps) (simp add: perform_def)
    qed
  qed (simp_all add: walkResponders.simps)
qed

lemma walkResponders_pointers:
  "all_pointers_ok s \<Longrightarrow>
     all_pointers_ok (fst (state_of (walkResponders en t responders idx rsp action s)))"
  using walkResponders_heap [of en t responders idx rsp action s]
  by (simp add: all_pointers_ok_def)

lemma endTouch_pointers:
  assumes "all_pointers_ok s"
  shows "all_pointers_ok (fst (state_of (endTouch en evt raw action s)))"
proof (cases "priv_touches s (raw_identifier raw)")
  case None
  then show ?thesis using assms by (simp add: endTouch_def)
next
  case (Some a)
  define s1 where "s1 = s\<lparr>heap := (heap s)(a := (heap s a)
      \<lparr>timeStamp := evt_timeStamp evt, pageX := raw_pageX raw, pageY := raw_pageY raw\<rparr>)\<rparr>"
  have p1: "all_pointers_ok s1"
    using assms by (simp add: s1_def all_pointers_ok_heap all_pointers_okD)
  have p2: "all_pointers_ok (state_of (unassignTouch a s1))"
    using p1 by (rule unassignTouch_pointers)
  have clear: "all_pointers_ok (s3\<lparr>heap := (heap s3)(a := (heap s3 a)
                 \<lparr>touchResponders := None, touchResponder := Null,
                  nextTouchResponder := Null\<rparr>),
               priv_touches := m\<rparr>)" if "all_pointers_ok s3" for s3 m
    using that by (simp add: all_pointers_ok_heap pointers_ok_def)
  show ?thesis
  proof (cases "unassignTouch a s1")
    case (Threw s2)
    then show ?thesis
      using p2 Some by (simp add: endTouch_def s1_def [symmetric])
  next
    case (Normal s2)
    then have p: "all_pointers_ok s2"
      using p2 by simp
    show ?thesis
    proof (cases "truthy (touchResponder (heap s2 a))")
      case False
      then show ?thesis
        using Some Normal clear [OF p]
        by (simp add: endTouch_def s1_def [symmetric] Let_def)
    next
      case True
      show ?thesis
      proof (cases "touchResponders (heap s2 a)")
        case None
        then show ?thesis
          using Some Normal True p
          by (simp add: endTouch_def s1_def [symmetric] Let_def)
      next
        case (Some responders)
        let ?w = "walkResponders en a responders (int (length responders) - 1)
                   (stack_at responders (int (length responders) - 1)) action s2"
        have pw: "all_pointers_ok (fst (state_of ?w))"
          using p by (rule walkResponders_pointers)
        show ?thesis
        proof (cases ?w)
          case (Threw x)
          then show ?thesis
            using \<open>priv_touches s (raw_identifier raw) = Some a\<close> Normal True Some pw
            by (simp add: endTouch_def s1_def [symmetric] Let_def)
        next
          case (Normal x)
          obtain s3 action' where x: "x = (s3, action')"
            by (cases x)
          then have "all_pointers_ok s3"
            using pw Normal by simp
          from clear [OF this] show ?thesis
            using \<open>priv_touches s (raw_identifier raw) = Some a\<close> \<open>unassignTouch a s1 = Normal s2\<close>
              True Some Normal x
            by (simp add: endTouch_def s1_def [symmetric] Let_def)
        qed
      qed
    qed
  qed
qed

lemma endLoop_pointers:
  "all_pointers_ok s \<Longrightarrow> all_pointers_ok (fst (state_of (endLoop en evt raws action s)))"
proof (induction raws arbitrary: action s)
  case Nil
  then show ?case by simp
next
  case (Cons raw rest)
  from endTouch_pointers [OF Cons.prems, of en evt raw action]
  show ?case
    using Cons.IH
    by (cases "endTouch en evt raw action s") (auto split: prod.splits)
qed

lemma touchend_pointers:
  "all_pointers_ok s \<Longrightarrow> all_pointers_ok (touchend en evt s)"
  using endLoop_pointers [of s en evt "changedTouches evt"
      "if isCancel evt then ''touchCancelled'' else ''touchEnd''"]
  by (auto simp: touchend_def split: outcome.splits prod.splits)

lemma dispatch_step_pointers:
  "all_pointers_ok s \<Longrightarrow> dispatch_step en x s = Some out \<Longrightarrow> all_pointers_ok (state_of out)"
  by (cases x) (auto simp: captureTouch_pointers makeTouchResponder_pointers touchend_pointers)

lemma run_ops_pointers:
  "all_pointers_ok s \<Longrightarrow> run_ops en xs s = Some out \<Longrightarrow> all_pointers_ok (state_of out)"
proof (induction xs arbitrary: s)
  case Nil
  then show ?case by auto
next
  case (Cons x xs)
  show ?case
  proof (cases "dispatch_step en x s")
    case None
    then show ?thesis using Cons.prems by simp
  next
    case (Some o1)
    from dispatch_step_pointers [OF Cons.prems(1) Some] have p: "all_pointers_ok (state_of o1)" .
    show ?thesis
    proof (cases o1)
      case (Threw s1)
      then show ?thesis using Cons.prems Some p by auto
    next
      case (Normal s1)
      then show ?thesis using Cons.prems Some p Cons.IH [of s1 ] by auto
    qed
  qed
qed

text \<open>
  In every state that a sequence of \<open>captureTouch\<close>, \<open>makeTouchResponder\<close> and \<open>touchend\<close>
  operations reaches from the initial state, whether its last operation returned or threw,
  \<open>touchResponder\<close> of every touch is the last element of its stack and
  \<open>nextTouchResponder\<close> the one before it.
\<close>

theorem pointers_follow_stack:
  assumes "run_ops en xs initial = Some out"
  shows "pointers_ok (heap (state_of out) a)"
  using run_ops_pointers [OF all_pointers_ok_initial assms] by (rule all_pointers_okD)

text \<open>
  The first two calls of the stacking scenario: the stack is \<open>[10, 20]\<close>, \<open>touchResponder\<close>
  is view 20 and \<open>nextTouchResponder\<close> view 10.
\<close>

theorem pointers_follow_stack_witness:
  "run_ops accepting
     [MakeTouchResponder 0 (Obj 10) True, MakeTouchResponder 0 (Obj 20) True] initial
     = Some stacked_A_B \<and>
   pointers_ok (heap (state_of stacked_A_B) 0) \<and>
   touchResponders (heap (state_of stacked_A_B) 0) = Some [10, 20] \<and>
   touchResponder (heap (state_of stacked_A_B) 0) = Obj 20 \<and>
   nextTouchResponder (heap (state_of stacked_A_B) 0) = Obj 10"
proof -
  have r: "run_ops accepting
     [MakeTouchResponder 0 (Obj 10) True, MakeTouchResponder 0 (Obj 20) True] initial
     = Some stacked_A_B"
    by (simp add: stacked_A_B_def split: outcome.splits)
  from pointers_follow_stack [OF r, of 0] r show ?thesis
    by (simp add: stacked_A_B_value)
qed

section \<open>captureTouch\<close>

text \<open>
  C4. \<open>captureTouch\<close> is claimed to offer the \<open>captureTouch\<close> query top-down, outermost
  ancestor first. The chain is built from the target upwards with \<open>push\<close> and walked from
  index 0: with view 30 inside 20 inside 10, all of them capturing, the query goes to the
  target 30 first, and 30 becomes the responder without 10 being asked.
\<close>

theorem capture_offered_to_target_first:
  "responderChain nested (Obj 30) (this_guid nested) [] = Some [30, 20, 10] \<and>
   tryToPerform nested 10 ''captureTouch'' 0 = Returns True \<and>
   captureTouch nested 0 Undefined False touch_on_30 =
     Some (Normal (state_of (the (captureTouch nested 0 Undefined False touch_on_30)))) \<and>
   events (state_of (the (captureTouch nested 0 Undefined False touch_on_30))) =
     [TryToPerform 30 ''captureTouch'' 0, SendEvent ''touchStart'' 0 (Obj 30),
      SetHasTouch 30 True] \<and>
   touchResponder (heap (state_of (the (captureTouch nested 0 Undefined False touch_on_30))) 0)
     = Obj 30"
  by (simp add: captureTouch_def nested_def touch_on_30_def responderChain.simps dispatch_eval)

text \<open>
  When no view of the chain answers \<open>YES\<close> to \<open>captureTouch\<close>, every view of the chain has
  been asked and \<open>makeTouchResponder\<close> is called with the target of the touch.
\<close>

theorem capture_falls_back_to_target:
  assumes "\<forall>v \<in> set chain. tryToPerform en v ''captureTouch'' t = Returns False"
  shows "captureLoop en t shouldStack chain target s =
           makeTouchResponder en t target shouldStack
             (s\<lparr>events := events s @ map (\<lambda>v. TryToPerform v ''captureTouch'' t) chain\<rparr>)"
  using assms
proof (induction chain arbitrary: s)
  case Nil
  then show ?case by simp
next
  case (Cons v rest)
  then show ?case
    by (simp add: perform_def)
qed

text \<open>
  Views 30, 20 and 10 decline to capture; the target 30 is offered the touch and takes it.
\<close>

theorem capture_falls_back_to_target_witness:
  "tryToPerform shy 30 ''captureTouch'' 0 = Returns False \<and>
   captureLoop shy 0 False [30, 20, 10] (Obj 30) touch_on_30 =
     makeTouchResponder shy 0 (Obj 30) False
       (touch_on_30\<lparr>events := [TryToPerform 30 ''captureTouch'' 0,
          TryToPerform 20 ''captureTouch'' 0, TryToPerform 10 ''captureTouch'' 0]\<rparr>) \<and>
   touchResponder (heap (state_of (the (captureTouch shy 0 Undefined False touch_on_30))) 0)
     = Obj 30"
proof -
  have h: "\<forall>v \<in> set [30, 20, 10]. tryToPerform shy v ''captureTouch'' 0 = Returns False"
    by (simp add: shy_def nested_def)
  have e: "events touch_on_30 = []"
    by (simp add: touch_on_30_def initial_def)
  have c: "touchResponder (heap (state_of (the (captureTouch shy 0 Undefined False touch_on_30))) 0)
     = Obj 30"
    by (simp add: captureTouch_def shy_def nested_def touch_on_30_def responderChain.simps
        dispatch_eval)
  from capture_falls_back_to_target [OF h, of False "Obj 30" touch_on_30] h e c
  show ?thesis by simp
qed

section \<open>The popping phase of makeTouchResponder\<close>

text \<open>
  The popping loop on a stack whose views do not throw from \<open>touchCancelled\<close>: it stops at
  the responder or at the bottom, leaves the index alone, and notifies the popped views
  that accept multitouch or have no entry in the index.
\<close>

lemma popLoop_run:
  assumes "touchResponders (heap s t) = Some stack"
      and "\<forall>v \<in> set stack. tryToPerform en v ''touchCancelled'' t \<noteq> Throws"
  shows "\<exists>s'. popLoop en t rsp (int (length stack) - 1)
                 (stack_at stack (int (length stack) - 1)) s = Normal s' \<and>
              touchResponders (heap s' t) = Some (kept stack rsp) \<and>
              priv_touchedViews s' = priv_touchedViews s \<and>
              events s' = events s @ map (\<lambda>v. TryToPerform v ''touchCancelled'' t)
                (filter (\<lambda>v. acceptsMultitouch en v \<or> touchesForView s v = None)
                   (popped stack rsp))"
  using assms
proof (induction stack arbitrary: s rule: rev_induct)
  case Nil
  then show ?case
    by (simp add: popLoop.simps stack_at_Nil kept_def popped_def)
next
  case (snoc x xs)
  show ?case
  proof (cases "Obj x = rsp")
    case True
    then have "rsp = Obj x" by simp
    then show ?thesis
      using snoc.prems(1)
      by (simp add: popLoop.simps stack_at_top kept_def popped_def)
  next
    case False
    obtain b where cb: "tryToPerform en x ''touchCancelled'' t = Returns b"
      using snoc.prems(2) by (cases "tryToPerform en x ''touchCancelled'' t") auto
    define s1 where "s1 = (if acceptsMultitouch en x \<or> touchesForView s x = None
                           then s\<lparr>events := events s @ [TryToPerform x ''touchCancelled'' t]\<rparr>
                           else s)"
    have c: "cancelPopped en t x s = Normal s1"
      by (simp add: cancelPopped_def perform_def cb s1_def)
    have st1: "touchResponders (heap s1 t) = Some (xs @ [x])"
      using snoc.prems(1) by (simp add: s1_def)
    define s2 where "s2 = s1\<lparr>heap := (heap s1)(t := (heap s1 t)
                           \<lparr>touchResponders := Some xs,
                            touchResponder := stack_at xs (int (length xs) - 1),
                            nextTouchResponder := stack_at xs (int (length xs) - 1 - 1)\<rparr>)\<rparr>"
    have step: "popLoop en t rsp (int (length (xs @ [x])) - 1)
                  (stack_at (xs @ [x]) (int (length (xs @ [x])) - 1)) s =
                popLoop en t rsp (int (length xs) - 1) (stack_at xs (int (length xs) - 1)) s2"
      using False c st1
      by (subst popLoop.simps) (simp add: stack_at_top stack_at_below_top s2_def)
    have "touchResponders (heap s2 t) = Some xs"
      by (simp add: s2_def)
    moreover have "\<forall>v \<in> set xs. tryToPerform en v ''touchCancelled'' t \<noteq> Throws"
      using snoc.prems(2) by simp
    ultimately obtain s' where
      run: "popLoop en t rsp (int (length xs) - 1) (stack_at xs (int (length xs) - 1)) s2
              = Normal s'"
      and stk: "touchResponders (heap s' t) = Some (kept xs rsp)"
      and idx: "priv_touchedViews s' = priv_touchedViews s2"
      and evs: "events s' = events s2 @ map (\<lambda>v. TryToPerform v ''touchCancelled'' t)
                (filter (\<lambda>v. acceptsMultitouch en v \<or> touchesForView s2 v = None)
                   (popped xs rsp))"
      using snoc.IH [of s2] by blast
    have same: "touchesForView s2 = touchesForView s"
      by (rule ext) (simp add: touchesForView_def s2_def s1_def)
    have final: "popLoop en t rsp (int (length (xs @ [x])) - 1)
                  (stack_at (xs @ [x]) (int (length (xs @ [x])) - 1)) s = Normal s'"
      by (simp only: step run)
    have k: "kept (xs @ [x]) rsp = kept xs rsp"
      using False by (simp add: kept_def)
    have p: "popped (xs @ [x]) rsp = x # popped xs rsp"
      using False by (simp add: popped_def)
    have i: "priv_touchedViews s' = priv_touchedViews s"
      using idx by (simp add: s2_def s1_def)
    have e: "events s' = events s @ map (\<lambda>v. TryToPerform v ''touchCancelled'' t)
                (filter (\<lambda>v. acceptsMultitouch en v \<or> touchesForView s v = None)
                   (popped (xs @ [x]) rsp))"
    proof -
      have "events s2 = events s @
              (if acceptsMultitouch en x \<or> touchesForView s x = None
               then [TryToPerform x ''touchCancelled'' t] else [])"
        by (simp add: s2_def s1_def)
      then show ?thesis
        using evs by (simp add: same p)
    qed
    show ?thesis
      using final stk i e by (simp only: k) blast
  qed
qed

text \<open>
  C5, as the code has it. When the popping phase runs (\<open>shouldStack\<close> is false, or the
  responder is in the stack below the top) and no \<open>touchCancelled\<close> callback throws, the
  views from the top of the stack down to the responder are popped, and \<open>touchCancelled\<close>
  goes to each popped view in that order, except to a popped view that does not accept
  multitouch and still has an entry in the index (other touches assigned to it).
\<close>

theorem popping_phase_cancellations:
  assumes "touchResponders (heap s t) = Some stack"
      and "\<forall>v \<in> set stack. tryToPerform en v ''touchCancelled'' t \<noteq> Throws"
      and "\<not> shouldStack \<or>
           (indexOf stack rsp > - 1 \<and> stack_at stack (int (length stack) - 1) \<noteq> rsp)"
  shows "\<exists>s'. popPhase en t rsp shouldStack s = Normal s' \<and>
              touchResponders (heap s' t) = Some (kept stack rsp) \<and>
              events s' = events s @ map (\<lambda>v. TryToPerform v ''touchCancelled'' t)
                (filter (\<lambda>v. \<not> (\<not> acceptsMultitouch en v \<and> touchesForView s v \<noteq> None))
                   (popped stack rsp))"
proof -
  from popLoop_run [OF assms(1,2), of rsp] obtain s' where
    "popLoop en t rsp (int (length stack) - 1) (stack_at stack (int (length stack) - 1)) s
       = Normal s'"
    "touchResponders (heap s' t) = Some (kept stack rsp)"
    "events s' = events s @ map (\<lambda>v. TryToPerform v ''touchCancelled'' t)
                (filter (\<lambda>v. acceptsMultitouch en v \<or> touchesForView s v = None)
                   (popped stack rsp))"
    by blast
  then show ?thesis
    using assms(1,3) by (simp add: popPhase_def)
qed

text \<open>
  The theorem at work on touch 7 of two touches on view 10, once \<open>unassignTouch\<close> has taken
  it out of the index: view 10 still has touch 8. A view 10 that does not accept multitouch
  is popped without a notification; one that does is notified.
\<close>

theorem popping_phase_cancellations_witness:
  "touchResponders (heap (state_of (unassignTouch 7 (state_of both_on_10))) 7) = Some [10] \<and>
   touchesForView (state_of (unassignTouch 7 (state_of both_on_10))) 10 = Some [8] \<and>
   tryToPerform accepting 10 ''touchCancelled'' 7 = Returns True \<and>
   popped [10] (Obj 30) = [10] \<and>
   acceptsMultitouch accepting 10 = False \<and>
   (\<exists>s'. popPhase accepting 7 (Obj 30) False (state_of (unassignTouch 7 (state_of both_on_10)))
            = Normal s' \<and>
          touchResponders (heap s' 7) = Some [] \<and>
          events s' = events (state_of (unassignTouch 7 (state_of both_on_10)))) \<and>
   acceptsMultitouch multitouch 10 = True \<and>
   (\<exists>s'. popPhase multitouch 7 (Obj 30) False (state_of (unassignTouch 7 (state_of both_on_10)))
            = Normal s' \<and>
          touchResponders (heap s' 7) = Some [] \<and>
          events s' = events (state_of (unassignTouch 7 (state_of both_on_10))) @
            [TryToPerform 10 ''touchCancelled'' 7])"
proof -
  let ?s = "state_of (unassignTouch 7 (state_of both_on_10))"
  have stack: "touchResponders (heap ?s 7) = Some [10]"
    by (simp add: both_on_10_value dispatch_eval)
  have others: "touchesForView ?s 10 = Some [8]"
    by (simp add: both_on_10_value dispatch_eval)
  have quiet: "\<forall>v \<in> set [10]. tryToPerform accepting v ''touchCancelled'' 7 \<noteq> Throws"
    by (simp add: accepting_def)
  have quiet': "\<forall>v \<in> set [10]. tryToPerform multitouch v ''touchCancelled'' 7 \<noteq> Throws"
    by (simp add: multitouch_def accepting_def)
  have pops: "\<not> False \<or>
           (indexOf [10] (Obj 30) > - 1 \<and> stack_at [10] (int (length [10::nat]) - 1) \<noteq> Obj 30)"
    by simp
  have shape: "popped [10] (Obj 30) = [10]" "kept [10] (Obj 30) = []"
    by (simp_all add: popped_def kept_def)
  have single: "acceptsMultitouch accepting 10 = False" "acceptsMultitouch multitouch 10 = True"
    "tryToPerform accepting 10 ''touchCancelled'' 7 = Returns True"
    by (simp_all add: multitouch_def accepting_def)
  show ?thesis
    using popping_phase_cancellations [OF stack quiet pops]
      popping_phase_cancellations [OF stack quiet' pops]
    by (simp add: stack others shape single)
qed

text \<open>
  C5 as claimed fails: view 10 accepts multitouch and still has touch 8 assigned when touch
  7 is taken from it, and it is sent \<open>touchCancelled\<close> for touch 7. With a view 10 that
  does not accept multitouch, the same call pops view 10 without a notification.
\<close>

theorem multitouch_view_with_other_touches_is_cancelled:
  "acceptsMultitouch multitouch 10 \<and>
   and_then (makeTouchResponder multitouch 7 (Obj 10) False two_registered)
     (makeTouchResponder multitouch 8 (Obj 10) False) = both_on_10 \<and>
   touchResponders (heap (state_of both_on_10) 7) = Some [10] \<and>
   popped_multitouch = Normal (state_of popped_multitouch) \<and>
   touchResponders (heap (state_of popped_multitouch) 7) = Some [30] \<and>
   touchesForView (state_of popped_multitouch) 10 = Some [8] \<and>
   drop (length (events (state_of both_on_10))) (events (state_of popped_multitouch)) =
     [SendEvent ''touchStart'' 7 (Obj 30), TryToPerform 10 ''touchCancelled'' 7,
      SetHasTouch 30 True] \<and>
   acceptsMultitouch accepting 10 = False \<and>
   touchResponders (heap (state_of popped_single_touch) 7) = Some [30] \<and>
   drop (length (events (state_of both_on_10))) (events (state_of popped_single_touch)) =
     [SendEvent ''touchStart'' 7 (Obj 30), SetHasTouch 30 True]"
proof -
  have "and_then (makeTouchResponder multitouch 7 (Obj 10) False two_registered)
          (makeTouchResponder multitouch 8 (Obj 10) False) = both_on_10"
    by (simp add: both_on_10_value two_registered_def multitouch_def accepting_def dispatch_eval)
  then show ?thesis
    by (simp add: popped_multitouch_def popped_single_touch_def both_on_10_value
        multitouch_def accepting_def dispatch_eval)
qed

section \<open>A declined offer\<close>

text \<open>
  C7. A declined \<open>touchStart\<close> offer is claimed to change nothing. The code returns early
  only when the pane's answer is the current responder; otherwise \<open>unassignTouch\<close> runs
  before the answer is looked at, and only the push is guarded by \<open>if (responder)\<close>. Touch 0
  has view 10 as its responder and view 30 declines. With \<open>shouldStack\<close> true the stack
  stays \<open>[10]\<close> and \<open>touchResponder\<close> stays view 10, but \<open>touch.view\<close> is cleared, view 10
  loses its entry in the index and its \<open>hasTouch\<close> is set to \<open>NO\<close>. With \<open>shouldStack\<close>
  false view 10 is popped with a \<open>touchCancelled\<close> as well and the touch is left with no
  responder.
\<close>

theorem declined_offer_releases_touch:
  "paneSendEvent declining ''touchStart'' 0 (Obj 30) = Returns Null \<and>
   touchResponders (heap (state_of touch_0_on_10) 0) = Some [10] \<and>
   touchResponder (heap (state_of touch_0_on_10) 0) = Obj 10 \<and>
   view (heap (state_of touch_0_on_10) 0) = Obj 10 \<and>
   priv_touchedViews (state_of touch_0_on_10) 10 =
     Some \<lparr>entryView = Obj 10, touches = [0], touchCount = 1\<rparr> \<and>
   hasTouch (state_of touch_0_on_10) 10 = True \<and>
   declined_while_stacking = Normal (state_of declined_while_stacking) \<and>
   touchResponders (heap (state_of declined_while_stacking) 0) = Some [10] \<and>
   touchResponder (heap (state_of declined_while_stacking) 0) = Obj 10 \<and>
   view (heap (state_of declined_while_stacking) 0) = Undefined \<and>
   priv_touchedViews (state_of declined_while_stacking) 10 = None \<and>
   hasTouch (state_of declined_while_stacking) 10 = False \<and>
   drop (length (events (state_of touch_0_on_10))) (events (state_of declined_while_stacking)) =
     [SendEvent ''touchStart'' 0 (Obj 30), SetHasTouch 10 False] \<and>
   declined_offer = Normal (state_of declined_offer) \<and>
   touchResponders (heap (state_of declined_offer) 0) = Some [] \<and>
   touchResponder (heap (state_of declined_offer) 0) = Undefined \<and>
   view (heap (state_of declined_offer) 0) = Undefined \<and>
   priv_touchedViews (state_of declined_offer) 10 = None \<and>
   hasTouch (state_of declined_offer) 10 = False \<and>
   drop (length (events (state_of touch_0_on_10))) (events (state_of declined_offer)) =
     [SendEvent ''touchStart'' 0 (Obj 30), SetHasTouch 10 False,
      TryToPerform 10 ''touchCancelled'' 0]"
  by (simp add: declined_while_stacking_def declined_offer_def touch_0_on_10_value declining_def
        accepting_def dispatch_eval)

lemma indexOf_falsy: "\<not> truthy a \<Longrightarrow> indexOf stack a = - 1"
  by (cases a) simp_all

lemma unassignTouch_touch_fields:
  "touchResponders (heap (state_of (unassignTouch t s)) t) = touchResponders (heap s t) \<and>
   touchResponder (heap (state_of (unassignTouch t s)) t) = touchResponder (heap s t) \<and>
   nextTouchResponder (heap (state_of (unassignTouch t s)) t) = nextTouchResponder (heap s t)"
  by (auto simp: unassignTouch_def Let_def split: ref.splits option.splits)

text \<open>
  What a declined offer does when \<open>shouldStack\<close> is true, for any touch and any stack. When
  the pane answers \<open>null\<close> or \<open>undefined\<close> and that answer is not the \<open>touchResponder\<close>
  of the touch, the call is the offer followed by \<open>unassignTouch\<close> and nothing else: the
  popping phase is skipped, since a stack holds no \<open>null\<close>, and so is the push. The stack and
  the pointers \<open>touchResponder\<close> and \<open>nextTouchResponder\<close> are those before the call.
\<close>

theorem declined_offer_when_stacking:
  assumes declined: "paneSendEvent en ''touchStart'' t r = Returns a" "\<not> truthy a"
      and stack: "touchResponders (heap s t) = Some stack"
      and differs: "touchResponder (heap s t) \<noteq> r" "touchResponder (heap s t) \<noteq> a"
  shows "makeTouchResponder en t r True s =
           unassignTouch t (s\<lparr>events := events s @ [SendEvent ''touchStart'' t r]\<rparr>) \<and>
         touchResponders (heap (state_of (makeTouchResponder en t r True s)) t) = Some stack \<and>
         touchResponder (heap (state_of (makeTouchResponder en t r True s)) t) =
           touchResponder (heap s t) \<and>
         nextTouchResponder (heap (state_of (makeTouchResponder en t r True s)) t) =
           nextTouchResponder (heap s t)"
proof -
  let ?s1 = "s\<lparr>events := events s @ [SendEvent ''touchStart'' t r]\<rparr>"
  have eq: "makeTouchResponder en t r True s = unassignTouch t ?s1"
  proof (cases "unassignTouch t ?s1")
    case (Normal s2)
    have "touchResponders (heap s2 t) = Some stack"
      using unassignTouch_touch_fields [of t ?s1] Normal stack by simp
    then have pop: "popPhase en t a True s2 = Normal s2"
      using declined(2) by (simp add: popPhase_def indexOf_falsy)
    have push: "pushPhase t a s2 = Normal s2"
      using declined(2) by (cases a) (simp_all add: pushPhase_def)
    show ?thesis
      using differs declined(1) Normal pop push
      by (simp add: makeTouchResponder_def sendEvent_def)
  next
    case (Threw s2)
    then show ?thesis
      using differs declined(1) by (simp add: makeTouchResponder_def sendEvent_def)
  qed
  show ?thesis
    using unassignTouch_touch_fields [of t ?s1] stack by (simp add: eq)
qed

text \<open>
  Touch 0 with the stack \<open>[10]\<close>, offered to view 30, which declines.
\<close>

theorem declined_offer_when_stacking_witness:
  "paneSendEvent declining ''touchStart'' 0 (Obj 30) = Returns Null \<and>
   \<not> truthy (Null :: guid ref) \<and>
   touchResponders (heap (state_of touch_0_on_10) 0) = Some [10] \<and>
   touchResponder (heap (state_of touch_0_on_10) 0) \<noteq> Obj 30 \<and>
   touchResponder (heap (state_of touch_0_on_10) 0) \<noteq> Null \<and>
   makeTouchResponder declining 0 (Obj 30) True (state_of touch_0_on_10) =
     unassignTouch 0 ((state_of touch_0_on_10)
       \<lparr>events := events (state_of touch_0_on_10) @ [SendEvent ''touchStart'' 0 (Obj 30)]\<rparr>) \<and>
   touchResponders
     (heap (state_of (makeTouchResponder declining 0 (Obj 30) True (state_of touch_0_on_10))) 0) =
     Some [10] \<and>
   touchResponder
     (heap (state_of (makeTouchResponder declining 0 (Obj 30) True (state_of touch_0_on_10))) 0) =
     touchResponder (heap (state_of touch_0_on_10) 0) \<and>
   nextTouchResponder
     (heap (state_of (makeTouchResponder declining 0 (Obj 30) True (state_of touch_0_on_10))) 0) =
     nextTouchResponder (heap (state_of touch_0_on_10) 0)"
proof -
  have h1: "paneSendEvent declining ''touchStart'' 0 (Obj 30) = Returns Null"
    by (simp add: declining_def accepting_def)
  have h2: "\<not> truthy (Null :: guid ref)"
    by simp
  have h3: "touchResponders (heap (state_of touch_0_on_10) 0) = Some [10]"
    by (simp add: touch_0_on_10_value)
  have h4: "touchResponder (heap (state_of touch_0_on_10) 0) \<noteq> Obj 30"
    by (simp add: touch_0_on_10_value)
  have h5: "touchResponder (heap (state_of touch_0_on_10) 0) \<noteq> Null"
    by (simp add: touch_0_on_10_value)
  from declined_offer_when_stacking [OF h1 h2 h3 h4 h5] h1 h2 h3 h4 h5
  show ?thesis by blast
qed

section \<open>Repeating a call\<close>

text \<open>
  A call of \<open>makeTouchResponder\<close> that has made a view the responder changes nothing when
  it is repeated: it returns at its first test, without an offer and without a
  notification.
\<close>

theorem makeTouchResponder_idempotent:
  assumes "makeTouchResponder en t (Obj a) shouldStack s = Normal s'"
      and "paneSendEvent en ''touchStart'' t (Obj a) = Returns (Obj a)"
  shows "makeTouchResponder en t (Obj a) shouldStack s' = Normal s'"
proof -
  have "touchResponder (heap s' t) = Obj a"
  proof (cases "touchResponder (heap s t) = Obj a")
    case True
    then show ?thesis using assms(1) by (simp add: makeTouchResponder_def)
  next
    case False
    let ?s1 = "s\<lparr>events := events s @ [SendEvent ''touchStart'' t (Obj a)]\<rparr>"
    from False assms obtain s2 s3 where
      "unassignTouch t ?s1 = Normal s2" "popPhase en t (Obj a) shouldStack s2 = Normal s3"
      "pushPhase t (Obj a) s3 = Normal s'"
      by (cases "unassignTouch t ?s1"; cases "popPhase en t (Obj a) shouldStack (state_of (unassignTouch t ?s1))")
         (auto simp: makeTouchResponder_def sendEvent_def)
    then show ?thesis
      by (auto simp: pushPhase_def Let_def split: option.splits)
  qed
  then show ?thesis
    by (simp add: makeTouchResponder_def)
qed

text \<open>
  Touch 0 made over to view 10, and made over to it again.
\<close>

theorem makeTouchResponder_idempotent_witness:
  "makeTouchResponder declining 0 (Obj 10) False initial = touch_0_on_10 \<and>
   touch_0_on_10 = Normal (state_of touch_0_on_10) \<and>
   paneSendEvent declining ''touchStart'' 0 (Obj 10) = Returns (Obj 10) \<and>
   makeTouchResponder declining 0 (Obj 10) False (state_of touch_0_on_10) =
     Normal (state_of touch_0_on_10)"
proof -
  have v: "touch_0_on_10 = Normal (state_of touch_0_on_10)"
    by (simp add: touch_0_on_10_value)
  have r: "makeTouchResponder declining 0 (Obj 10) False initial = Normal (state_of touch_0_on_10)"
    using v by (subst (asm) touch_0_on_10_def)
  have p: "paneSendEvent declining ''touchStart'' 0 (Obj 10) = Returns (Obj 10)"
    by (simp add: declining_def accepting_def)
  from makeTouchResponder_idempotent [OF r p] v p show ?thesis
    by (simp only: touch_0_on_10_def [symmetric])
qed

section \<open>touchend\<close>

text \<open>
  C6. In a batch that is a normal end, the innermost frame of every ending touch is claimed
  to receive \<open>touchEnd\<close>. The variable \<open>action\<close> is set once before the loop over the
  touches and overwritten with \<open>touchCancelled\<close> in the walk of the first stack: with touch
  7 on view 10 and touch 8 on view 20 ending together, view 10 receives \<open>touchEnd\<close> and view
  20, the innermost and only frame of touch 8, receives \<open>touchCancelled\<close>.
\<close>

theorem second_touch_of_batch_is_cancelled:
  "isCancel end_of_both = False \<and>
   touchResponders (heap (state_of on_10_and_20) 7) = Some [10] \<and>
   touchResponders (heap (state_of on_10_and_20) 8) = Some [20] \<and>
   drop (length (events (state_of on_10_and_20)))
     (events (touchend accepting end_of_both (state_of on_10_and_20))) =
     [SetHasTouch 10 False, TryToPerform 10 ''touchEnd'' 7,
      SetHasTouch 20 False, TryToPerform 20 ''touchCancelled'' 8]"
  by (simp add: on_10_and_20_value end_of_both_def accepting_def end_eval dispatch_eval)

text \<open>
  C8. The touch record is claimed to leave \<open>_touches\<close> even when a callback throws. The
  \<open>delete\<close> is the last statement of the \<open>try\<close> block's loop body: when \<open>touchEnd\<close> of view
  10 throws, touch 7 stays registered, and touch 8 of the same batch is not processed at
  all (it stays registered and assigned, view 20 keeps \<open>hasTouch\<close>).
\<close>

theorem throwing_callback_leaves_touches_registered:
  "tryToPerform throwing 10 ''touchEnd'' 7 = Throws \<and>
   and_then (makeTouchResponder throwing 7 (Obj 10) False two_registered)
     (makeTouchResponder throwing 8 (Obj 20) False) = on_10_and_20 \<and>
   priv_touches (state_of on_10_and_20) 7 = Some 7 \<and>
   priv_touches (touchend throwing end_of_both (state_of on_10_and_20)) 7 = Some 7 \<and>
   priv_touches (touchend throwing end_of_both (state_of on_10_and_20)) 8 = Some 8 \<and>
   hasTouch (touchend throwing end_of_both (state_of on_10_and_20)) 20 \<and>
   drop (length (events (state_of on_10_and_20)))
     (events (touchend throwing end_of_both (state_of on_10_and_20))) =
     [SetHasTouch 10 False, TryToPerform 10 ''touchEnd'' 7, LoggerWarn]"
proof -
  have "and_then (makeTouchResponder throwing 7 (Obj 10) False two_registered)
          (makeTouchResponder throwing 8 (Obj 20) False) = on_10_and_20"
    by (simp add: on_10_and_20_value two_registered_def throwing_def accepting_def
        dispatch_eval)
  then show ?thesis
    by (simp add: on_10_and_20_value end_of_both_def throwing_def accepting_def end_eval
        dispatch_eval)
qed

lemma walkResponders_prefix:
  assumes "\<forall>v \<in> set xs. \<forall>a. tryToPerform en v a t \<noteq> Throws"
  shows "walkResponders en t (xs @ ys) (int (length xs) - 1)
           (stack_at xs (int (length xs) - 1)) action s =
         Normal
           (s\<lparr>events := events s @
                (case rev xs of
                   [] \<Rightarrow> []
                 | v # vs \<Rightarrow> TryToPerform v action t #
                             map (\<lambda>w. TryToPerform w ''touchCancelled'' t) vs)\<rparr>,
            if xs = [] then action else ''touchCancelled'')"
  using assms
proof (induction xs arbitrary: ys action s rule: rev_induct)
  case Nil
  then show ?case by (simp add: walkResponders.simps stack_at_Nil)
next
  case (snoc x zs)
  obtain b where cb: "tryToPerform en x action t = Returns b"
    using snoc.prems by (cases "tryToPerform en x action t") auto
  let ?s1 = "s\<lparr>events := events s @ [TryToPerform x action t]\<rparr>"
  have rd: "stack_at (zs @ x # ys) (int (length zs) - 1) = stack_at zs (int (length zs) - 1)"
    using stack_at_prefix [of zs "x # ys"] by simp
  have step: "walkResponders en t ((zs @ [x]) @ ys) (int (length (zs @ [x])) - 1)
                (stack_at (zs @ [x]) (int (length (zs @ [x])) - 1)) action s =
              walkResponders en t (zs @ (x # ys)) (int (length zs) - 1)
                (stack_at zs (int (length zs) - 1)) ''touchCancelled'' ?s1"
    by (subst walkResponders.simps) (simp add: stack_at_top rd perform_def cb)
  have "\<forall>v \<in> set zs. \<forall>a. tryToPerform en v a t \<noteq> Throws"
    using snoc.prems by simp
  from snoc.IH [OF this, of "x # ys" "''touchCancelled''" ?s1]
  show ?case
    by (simp only: step) (cases "rev zs"; simp)
qed

text \<open>
  The walk of one stack in \<open>touchend\<close>, when no callback throws: the innermost view
  receives the action the walk starts with, every view after it \<open>touchCancelled\<close>, from
  the innermost to the outermost, and nothing else changes.
\<close>

theorem end_walk_order:
  assumes "\<forall>v \<in> set stack. \<forall>a. tryToPerform en v a t \<noteq> Throws"
  shows "\<exists>a. walkResponders en t stack (int (length stack) - 1)
             (stack_at stack (int (length stack) - 1)) action s =
           Normal
             (s\<lparr>events := events s @
                  (case rev stack of
                     [] \<Rightarrow> []
                   | v # vs \<Rightarrow> TryToPerform v action t #
                               map (\<lambda>w. TryToPerform w ''touchCancelled'' t) vs)\<rparr>, a)"
  using walkResponders_prefix [OF assms, of "[]"] by simp

text \<open>
  The stack \<open>[Root, Mid, Leaf]\<close> = \<open>[1, 2, 3]\<close> of one touch in a normal end: Leaf receives
  \<open>touchEnd\<close>, then Mid and Root \<open>touchCancelled\<close>.
\<close>

theorem end_walk_order_witness:
  "tryToPerform accepting 1 ''touchEnd'' 7 \<noteq> Throws \<and>
   (\<exists>a. walkResponders accepting 7 [1, 2, 3] 2 (Obj 3) ''touchEnd'' initial =
     Normal (initial\<lparr>events := [TryToPerform 3 ''touchEnd'' 7,
                TryToPerform 2 ''touchCancelled'' 7, TryToPerform 1 ''touchCancelled'' 7]\<rparr>,
             a))"
proof -
  have h: "\<forall>v \<in> set [1, 2, 3]. \<forall>a. tryToPerform accepting v a 7 \<noteq> Throws"
    by (simp add: accepting_def)
  have "events initial = []" "tryToPerform accepting 1 ''touchEnd'' 7 \<noteq> Throws"
    by (simp_all add: initial_def accepting_def)
  with end_walk_order [OF h, of "''touchEnd''" initial] show ?thesis
    by (simp add: stack_at_Cons)
qed

section \<open>averagedTouchesForView\<close>

text \<open>
  The variable \<open>ad\<close> is declared without a value; the first \<open>ad += ...\<close> makes it \<open>NaN\<close>,
  and it stays \<open>NaN\<close>.
\<close>

lemma distanceLoop_not_a_number:
  "ad = JUndefined \<or> ad = JNaN \<Longrightarrow> tchs \<noteq> [] \<Longrightarrow> distanceLoop tchs ax ay ad = JNaN"
proof (induction tchs arbitrary: ad)
  case Nil
  then show ?case by simp
next
  case (Cons tch rest)
  have step: "js_add ad (JNum r) = JNaN" for r
    using Cons.prems(1) by auto
  show ?case
  proof (cases rest)
    case Nil
    then show ?thesis by (simp add: step Let_def)
  next
    case (Cons u us)
    then show ?thesis using Cons.IH [of JNaN] by (simp add: step Let_def)
  qed
qed

text \<open>
  C9. For a view with touches, \<open>d\<close> is claimed to be the mean distance of the touches from
  their centroid. For view 10 with its one touch at (3, 4) the centroid is (3, 4) and the
  touch count 1, as claimed, and \<open>d\<close>, which should be 0, is \<open>NaN\<close>.
\<close>

theorem averaged_distance_is_NaN:
  "touchesForView one_touch_at_3_4 10 = Some [0] \<and>
   averagedTouchesForView one_touch_at_3_4 10 =
     \<lparr>avg_x = 3, avg_y = 4, avg_d = JNaN, avg_touchCount = 1\<rparr>"
  by (simp add: one_touch_at_3_4_def averagedTouchesForView_def dispatch_eval)

lemma addLoop_sums:
  "addLoop tchs (ax, ay) =
     (ax + sum_list (map pageX tchs), ay + sum_list (map pageY tchs))"
  by (induction tchs arbitrary: ax ay) (auto simp: algebra_simps)

text \<open>
  For a view with touches, \<open>x\<close> and \<open>y\<close> are the means of \<open>pageX\<close> and \<open>pageY\<close> and
  \<open>touchCount\<close> is the number of touches.
\<close>

theorem averaged_centroid:
  assumes "touchesForView s v = Some ts" "ts \<noteq> []"
  shows "avg_x (averagedTouchesForView s v) =
           sum_list (map (\<lambda>t. pageX (heap s t)) ts) / real (length ts) \<and>
         avg_y (averagedTouchesForView s v) =
           sum_list (map (\<lambda>t. pageY (heap s t)) ts) / real (length ts) \<and>
         avg_touchCount (averagedTouchesForView s v) = length ts"
  using assms
  by (simp add: averagedTouchesForView_def Let_def addLoop_sums comp_def split: prod.splits)

text \<open>
  One touch at (3, 4).
\<close>

theorem averaged_centroid_witness:
  "touchesForView one_touch_at_3_4 10 = Some [0] \<and> [0::nat] \<noteq> [] \<and>
   avg_x (averagedTouchesForView one_touch_at_3_4 10) = 3 \<and>
   avg_y (averagedTouchesForView one_touch_at_3_4 10) = 4 \<and>
   avg_touchCount (averagedTouchesForView one_touch_at_3_4 10) = 1"
proof -
  have t: "touchesForView one_touch_at_3_4 10 = Some [0]"
    by (simp add: one_touch_at_3_4_def dispatch_eval)
  have n: "[0::nat] \<noteq> []"
    by simp
  have "pageX (heap one_touch_at_3_4 0) = 3" "pageY (heap one_touch_at_3_4 0) = 4"
    by (simp_all add: one_touch_at_3_4_def dispatch_eval)
  with averaged_centroid [OF t n] t show ?thesis
    by simp
qed

text \<open>
  For a view without touches the record is all zero.
\<close>

theorem averaged_without_touches:
  assumes "touchesForView s v = None \<or> touchesForView s v = Some []"
  shows "averagedTouchesForView s v =
           \<lparr>avg_x = 0, avg_y = 0, avg_d = JNum 0, avg_touchCount = 0\<rparr>"
  using assms by (auto simp: averagedTouchesForView_def)

text \<open>
  No view has a touch in the initial state.
\<close>

theorem averaged_without_touches_witness:
  "(touchesForView initial 10 = None \<or> touchesForView initial 10 = Some []) \<and>
   averagedTouchesForView initial 10 =
     \<lparr>avg_x = 0, avg_y = 0, avg_d = JNum 0, avg_touchCount = 0\<rparr>"
proof -
  have h: "touchesForView initial 10 = None \<or> touchesForView initial 10 = Some []"
    by (simp add: touchesForView_def initial_def)
  from averaged_without_touches [OF h] h show ?thesis
    by blast
qed

section \<open>The deceleration integrator\<close>

text \<open>
  C10. A tick at velocity 0 with the offset in the closed interval from 0 to the maximum is
  claimed to end the deceleration. The test for the end is \<open>newY > 0 && newY < maxOffset\<close>:
  at offset 0, and at the maximum offset, the tick changes nothing but the time of the last
  event, sets no property and schedules the next tick, so that every later tick does the
  same.
\<close>

theorem rest_at_edge_schedules_next_tick:
  "decelerateAnimation now now' h (atRest c k 0) =
     (atRest c k 0)\<lparr>scroll_touch :=
        (scroll_touch (atRest c k 0))\<lparr>lastEventTime := now', timeout := Some h\<rparr>\<rparr> \<and>
   decelerateAnimation now now' h (atRest c k (maximumVerticalScrollOffset (atRest c k 0))) =
     (atRest c k (maximumVerticalScrollOffset (atRest c k 0)))\<lparr>scroll_touch :=
        (scroll_touch (atRest c k 0))\<lparr>lastEventTime := now', timeout := Some h\<rparr>\<rparr>"
  by (simp add: decelerateAnimation_def atRest_def Let_def maximumVerticalScrollOffset_def)

text \<open>
  Strictly inside the scroll range a tick at velocity 0 ends the deceleration: no tick is
  scheduled, and the offset is set once through the property.
\<close>

theorem deceleration_stops_inside:
  assumes "decelerationVelocity_y (scroll_touch sv) = 0"
      and "0 < priv_scroll_verticalScrollOffset sv"
      and "priv_scroll_verticalScrollOffset sv < maximumVerticalScrollOffset sv"
  shows "timeout (scroll_touch (decelerateAnimation now now' h sv)) = None \<and>
         propertySets (decelerateAnimation now now' h sv) =
           propertySets sv @ [priv_scroll_verticalScrollOffset sv] \<and>
         priv_scroll_verticalScrollOffset (decelerateAnimation now now' h sv) =
           priv_scroll_verticalScrollOffset sv"
  using assms
  by (auto simp: decelerateAnimation_def Let_def set_verticalScrollOffset_def
      maximumVerticalScrollOffset_def split: if_splits)

text \<open>
  Content of height 500 in a container of height 400, at rest at offset 50.
\<close>

theorem deceleration_stops_inside_witness:
  "decelerationVelocity_y (scroll_touch (atRest 500 400 50)) = 0 \<and>
   0 < priv_scroll_verticalScrollOffset (atRest 500 400 50) \<and>
   priv_scroll_verticalScrollOffset (atRest 500 400 50)
     < maximumVerticalScrollOffset (atRest 500 400 50) \<and>
   timeout (scroll_touch (decelerateAnimation 10 11 1 (atRest 500 400 50))) = None \<and>
   propertySets (decelerateAnimation 10 11 1 (atRest 500 400 50)) = [50]"
proof -
  have h: "decelerationVelocity_y (scroll_touch (atRest 500 400 50)) = 0"
    "0 < priv_scroll_verticalScrollOffset (atRest 500 400 50)"
    "priv_scroll_verticalScrollOffset (atRest 500 400 50)
       < maximumVerticalScrollOffset (atRest 500 400 50)"
    by (simp_all add: atRest_def maximumVerticalScrollOffset_def)
  have "propertySets (atRest 500 400 50) = []" "priv_scroll_verticalScrollOffset (atRest 500 400 50) = 50"
    by (simp_all add: atRest_def)
  with deceleration_stops_inside [OF h, of 10 11 1] h show ?thesis
    by simp
qed

end
